theory Spec2Isabelle
  imports Complex_Main "HOL-Library.AList"
begin

section \<open>Dates\<close>

text \<open>
  A JavaScript \<open>Date\<close> is a count of milliseconds. The service reads every date in the
  host's local time through the date-fns library; the model fixes one time zone with a
  constant offset and counts the milliseconds of local time since the local midnight of
  1970-01-01, so that a calendar day is a block of \<open>msPerDay\<close> milliseconds. Only valid
  dates are modelled.
\<close>

type_synonym Date = int

definition msPerDay :: int where
  "msPerDay = 86400000"

definition msPerHour :: int where
  "msPerHour = 3600000"

text \<open>date-fns \<open>startOfDay\<close>: the same calendar day at 00:00:00.000.\<close>

definition startOfDay :: "Date \<Rightarrow> Date" where
  "startOfDay t = t - t mod msPerDay"

text \<open>
  date-fns \<open>differenceInCalendarDays(left, right)\<close>: both dates are taken to the start of
  their day, and the distance is counted in whole days (signed).
\<close>

definition differenceInCalendarDays :: "Date \<Rightarrow> Date \<Rightarrow> int" where
  "differenceInCalendarDays dateLeft dateRight =
     (startOfDay dateLeft - startOfDay dateRight) div msPerDay"

section \<open>The streak record and its update\<close>

text \<open>
  The entity \<open>MoodStreaks\<close> (table \<open>mood_streaks\<close>), with the columns the streak logic
  reads and writes. The four date columns are nullable. The generated \<open>id\<close> and the
  two timestamps maintained by the mapper are left out.
\<close>

record MoodStreaks =
  userId :: string
  currentStreak :: int
  longestStreak :: int
  lastLogDate :: "Date option"
  isActive :: bool
  currentStreakStartDate :: "Date option"
  longestStreakStartDate :: "Date option"
  longestStreakEndDate :: "Date option"

text \<open>
  The streak repository holds at most one record per user (unique index on \<open>userId\<close>):
  \<open>findOne\<close> is the lookup and \<open>save\<close> stores the record under its user.
\<close>

type_synonym StreakRepository = "string \<rightharpoonup> MoodStreaks"

text \<open>
  \<open>updateUserStreak(userId, logDate)\<close> of the mood-log service. The repository is
  passed in and returned; the first component is the saved record, which the method
  returns. The branches follow the source in order; when \<open>daysDifference\<close> is negative
  no branch applies and the record is saved as it was found.
\<close>

definition updateUserStreak ::
  "StreakRepository \<Rightarrow> string \<Rightarrow> Date \<Rightarrow> MoodStreaks \<times> StreakRepository" where
  "updateUserStreak repo uid logDate =
     (let today = startOfDay logDate;
          streakRecord =
            (case repo uid of
               None \<Rightarrow>
                 \<lparr> userId = uid, currentStreak = 1, longestStreak = 1,
                   lastLogDate = Some today, isActive = True,
                   currentStreakStartDate = Some today,
                   longestStreakStartDate = Some today,
                   longestStreakEndDate = Some today \<rparr>
             | Some found \<Rightarrow>
                 (case map_option startOfDay (lastLogDate found) of
                    None \<Rightarrow>
                      found\<lparr> currentStreak := 1, lastLogDate := Some today,
                             isActive := True, currentStreakStartDate := Some today \<rparr>
                  | Some lastLog \<Rightarrow>
                      (let daysDifference = differenceInCalendarDays today lastLog in
                       if daysDifference = 0 then
                         found\<lparr> lastLogDate := Some today \<rparr>
                       else if daysDifference = 1 then
                         (let bumped = found\<lparr> currentStreak := currentStreak found + 1,
                                               lastLogDate := Some today,
                                               isActive := True \<rparr>
                          in if currentStreak bumped > longestStreak bumped then
                               bumped\<lparr> longestStreak := currentStreak bumped,
                                       longestStreakStartDate := currentStreakStartDate bumped,
                                       longestStreakEndDate := Some today \<rparr>
                             else bumped)
                       else if daysDifference > 1 then
                         found\<lparr> currentStreak := 1, lastLogDate := Some today,
                                currentStreakStartDate := Some today, isActive := True \<rparr>
                       else found)))
      in (streakRecord, repo(uid \<mapsto> streakRecord)))"


text \<open>
  The streak record of a user after a sequence of logs: \<open>createMoodLog\<close> calls
  \<open>updateUserStreak\<close> once for each saved log, in order.
\<close>

definition streakAfterLogs :: "StreakRepository \<Rightarrow> string \<Rightarrow> Date list \<Rightarrow> StreakRepository" where
  "streakAfterLogs repo uid logDates =
     foldl (\<lambda>r d. snd (updateUserStreak r uid d)) repo logDates"

text \<open>
  The two conditions of the data model's invariant. Dates are compared by calendar day,
  that is, by the start of their day; the date condition needs both dates present.
\<close>

definition startNotAfterLast :: "MoodStreaks \<Rightarrow> bool" where
  "startNotAfterLast s =
     (case (currentStreakStartDate s, lastLogDate s) of
        (Some a, Some b) \<Rightarrow> startOfDay a \<le> startOfDay b
      | _ \<Rightarrow> False)"

definition streakInvariant :: "MoodStreaks \<Rightarrow> bool" where
  "streakInvariant s = (currentStreak s \<le> longestStreak s \<and> startNotAfterLast s)"

text \<open>
  The records that \<open>updateUserStreak\<close> can produce for a user, starting from the user's
  first log.
\<close>

inductive reachable :: "MoodStreaks \<Rightarrow> bool" where
  first_log: "repo uid = None \<Longrightarrow> reachable (fst (updateUserStreak repo uid d))"
| later_log: "reachable s \<Longrightarrow> repo uid = Some s \<Longrightarrow>
     reachable (fst (updateUserStreak repo uid d))"

text \<open>
  A row of \<open>mood_streaks\<close> holding the column defaults of the entity: both counters 0,
  \<open>isActive\<close> true, the nullable dates null.
\<close>

definition entityDefaults :: "string \<Rightarrow> MoodStreaks" where
  "entityDefaults uid =
     \<lparr> userId = uid, currentStreak = 0, longestStreak = 0, lastLogDate = None,
       isActive = True, currentStreakStartDate = None,
       longestStreakStartDate = None, longestStreakEndDate = None \<rparr>"

section \<open>Clock and calendar readings of a date\<close>

text \<open>\<open>Date.getHours()\<close>: the hour of the day, 0 to 23.\<close>

definition getHours :: "Date \<Rightarrow> nat" where
  "getHours t = nat ((t mod msPerDay) div msPerHour)"

text \<open>
  \<open>Date.getDay()\<close>: the day of the week, 0 for Sunday to 6 for Saturday. The first of
  January 1970 was a Thursday.
\<close>

definition getDay :: "Date \<Rightarrow> nat" where
  "getDay t = nat ((t div msPerDay + 4) mod 7)"

text \<open>
  \<open>date.setDate(date.getDate() + i)\<close> on a copy of a date: the same time of day,
  \<open>i\<close> calendar days later.
\<close>

definition addDays :: "Date \<Rightarrow> nat \<Rightarrow> Date" where
  "addDays t i = t + int i * msPerDay"

text \<open>
  The year, month and day of the month that \<open>getFullYear\<close>, \<open>getMonth\<close> and
  \<open>getDate\<close> read from a date, as the language standard defines them on the number of
  the day (days since 1970-01-01, proleptic Gregorian calendar).

  \<open>DayFromYear(y)\<close> is the number of the first day of year \<open>y\<close>.
\<close>

definition DayFromYear :: "int \<Rightarrow> int" where
  "DayFromYear y =
     365 * (y - 1970) + (y - 1969) div 4 - (y - 1901) div 100 + (y - 1601) div 400"

text \<open>
  \<open>YearFromTime\<close>: the largest year whose first day is not after the given day. It is
  computed from an estimate by the mean length of a year, which is at most one year off
  and is corrected by comparing with \<open>DayFromYear\<close>.
\<close>

definition YearFromDay :: "int \<Rightarrow> int" where
  "YearFromDay z =
     (let y = 1970 + (400 * z) div 146097 in
      if DayFromYear (y + 1) \<le> z then y + 1
      else if z < DayFromYear y then y - 1
      else y)"

text \<open>\<open>InLeapYear\<close>: 1 in a year of 366 days, 0 in a year of 365 days.\<close>

definition InLeapYear :: "int \<Rightarrow> int" where
  "InLeapYear y =
     (if y mod 4 \<noteq> 0 then 0
      else if y mod 100 \<noteq> 0 then 1
      else if y mod 400 \<noteq> 0 then 0
      else 1)"

text \<open>
  \<open>MonthFromTime\<close> and \<open>DateFromTime\<close>: the month (here 1 to 12) and the day of the
  month, from the day within the year and the leap-year flag.
\<close>

definition monthAndDate :: "int \<Rightarrow> int \<Rightarrow> int \<times> int" where
  "monthAndDate dayWithinYear leap =
     (if dayWithinYear < 31 then (1, dayWithinYear + 1)
      else if dayWithinYear < 59 + leap then (2, dayWithinYear - 30)
      else if dayWithinYear < 90 + leap then (3, dayWithinYear - 58 - leap)
      else if dayWithinYear < 120 + leap then (4, dayWithinYear - 89 - leap)
      else if dayWithinYear < 151 + leap then (5, dayWithinYear - 119 - leap)
      else if dayWithinYear < 181 + leap then (6, dayWithinYear - 150 - leap)
      else if dayWithinYear < 212 + leap then (7, dayWithinYear - 180 - leap)
      else if dayWithinYear < 243 + leap then (8, dayWithinYear - 211 - leap)
      else if dayWithinYear < 273 + leap then (9, dayWithinYear - 242 - leap)
      else if dayWithinYear < 304 + leap then (10, dayWithinYear - 272 - leap)
      else if dayWithinYear < 334 + leap then (11, dayWithinYear - 303 - leap)
      else (12, dayWithinYear - 333 - leap))"

definition civilFromDays :: "int \<Rightarrow> int \<times> int \<times> int" where
  "civilFromDays z =
     (let y = YearFromDay z in
      case monthAndDate (z - DayFromYear y) (InLeapYear y) of (m, d) \<Rightarrow> (y, m, d))"

text \<open>\<open>Number.toString()\<close> of a natural number: its decimal digits.\<close>

fun decimal :: "nat \<Rightarrow> string" where
  "decimal n =
     (if n < 10 then [''0123456789'' ! n]
      else decimal (n div 10) @ [''0123456789'' ! (n mod 10)])"

declare decimal.simps [simp del]

text \<open>date-fns \<open>addLeadingZeros\<close> for a number that is not negative.\<close>

definition addLeadingZeros :: "nat \<Rightarrow> nat \<Rightarrow> string" where
  "addLeadingZeros n targetLength =
     replicate (targetLength - length (decimal n)) (CHR ''0'') @ decimal n"

text \<open>
  date-fns \<open>format(date, 'yyyy-MM-dd')\<close>. The token \<open>yyyy\<close> prints the year of the era:
  a year \<open>y \<le> 0\<close> of the calendar is printed as \<open>1 - y\<close>.
\<close>

definition format_yyyy_MM_dd :: "Date \<Rightarrow> string" where
  "format_yyyy_MM_dd t =
     (case civilFromDays (t div msPerDay) of
        (y, m, d) \<Rightarrow>
          addLeadingZeros (nat (if y > 0 then y else 1 - y)) 4 @ ''-'' @
          addLeadingZeros (nat m) 2 @ ''-'' @ addLeadingZeros (nat d) 2)"

section \<open>Objects used as dictionaries\<close>

text \<open>
  A JavaScript object used as a dictionary is modelled by the list of its own properties
  in the order of their creation: assigning to a new key appends it, assigning to an
  existing key keeps its place (\<open>AList.update\<close>).

  Reading a key that is not an own property falls through to \<open>Object.prototype\<close>. The
  names below are the properties every plain object inherits; each of them reads as a
  function or an object, hence as a true condition.
\<close>

datatype jsError = TypeError

definition objectPrototypeKeys :: "string list" where
  "objectPrototypeKeys =
     [''constructor'', ''__defineGetter__'', ''__defineSetter__'', ''hasOwnProperty'',
      ''__lookupGetter__'', ''__lookupSetter__'', ''isPrototypeOf'',
      ''propertyIsEnumerable'', ''toString'', ''valueOf'', ''__proto__'',
      ''toLocaleString'']"

datatype 'v jsLookup = Own 'v | Inherited | Undefined

definition getProperty :: "(string \<times> 'v) list \<Rightarrow> string \<Rightarrow> 'v jsLookup" where
  "getProperty obj key =
     (case map_of obj key of
        Some v \<Rightarrow> Own v
      | None \<Rightarrow> if key \<in> set objectPrototypeKeys then Inherited else Undefined)"

text \<open>
  \<open>Object.values\<close> of an object whose keys are integers: the values by ascending key,
  whatever the order of creation.
\<close>

definition objectValuesByIndex :: "(nat \<times> 'v) list \<Rightarrow> 'v list" where
  "objectValuesByIndex obj = map snd (sort_key fst obj)"

text \<open>
  \<open>array.forEach\<close> with a callback that may throw: the state is threaded through the
  calls, and the first error ends the loop.
\<close>

fun forEach :: "('s \<Rightarrow> 'a \<Rightarrow> jsError + 's) \<Rightarrow> 'a list \<Rightarrow> 's \<Rightarrow> jsError + 's" where
  "forEach f [] s = Inr s"
| "forEach f (x # xs) s = (case f s x of Inl e \<Rightarrow> Inl e | Inr s' \<Rightarrow> forEach f xs s')"

section \<open>Mood logs and their grouping\<close>

text \<open>
  The entity \<open>MoodLog\<close> with the fields the statistics read: the date of the mood and,
  through the relation \<open>userMood.mood\<close>, the name, emoji and colour of the mood.
\<close>

record MoodLog =
  logId :: string
  moodDate :: Date
  moodName :: string
  moodEmoji :: string
  moodColour :: string

text \<open>
  The groups of the three views and the entries of the summary all carry a \<open>count\<close>;
  the groups also carry the list \<open>logs\<close>.
\<close>

record Counted =
  count :: nat

record LogGroup = Counted +
  logs :: "MoodLog list"

record HourGroup = LogGroup +
  hour :: nat

record DayGroup = LogGroup +
  day :: string
  dayNumber :: nat

record DateGroup = LogGroup +
  date :: string
  dateObj :: Date

text \<open>\<open>group.logs.push(log); group.count++\<close>\<close>

definition pushLog :: "'a LogGroup_scheme \<Rightarrow> MoodLog \<Rightarrow> 'a LogGroup_scheme" where
  "pushLog g moodLog = g\<lparr> logs := logs g @ [moodLog], count := count g + 1 \<rparr>"

subsection \<open>\<open>groupLogsByHour\<close>\<close>

definition initHourGroups :: "(nat \<times> HourGroup) list" where
  "initHourGroups =
     foldl (\<lambda>hourGroups i.
              AList.update i \<lparr> count = 0, logs = [], hour = i \<rparr> hourGroups)
       [] [0..<24]"

text \<open>
  The body of the loop over the logs. A missing key would make \<open>hourGroups[hour]\<close>
  undefined and the access to its \<open>logs\<close> a \<open>TypeError\<close>.
\<close>

definition hourStep ::
  "(nat \<times> HourGroup) list \<Rightarrow> MoodLog \<Rightarrow> jsError + (nat \<times> HourGroup) list" where
  "hourStep hourGroups moodLog =
     (let hour = getHours (moodDate moodLog) in
      case map_of hourGroups hour of
        None \<Rightarrow> Inl TypeError
      | Some g \<Rightarrow> Inr (AList.update hour (pushLog g moodLog) hourGroups))"

definition groupLogsByHour :: "MoodLog list \<Rightarrow> jsError + HourGroup list" where
  "groupLogsByHour logList =
     (case forEach hourStep logList initHourGroups of
        Inl e \<Rightarrow> Inl e
      | Inr hourGroups \<Rightarrow> Inr (objectValuesByIndex hourGroups))"

subsection \<open>\<open>groupLogsByDay\<close>\<close>

definition daysOfWeek :: "string list" where
  "daysOfWeek =
     [''Sunday'', ''Monday'', ''Tuesday'', ''Wednesday'', ''Thursday'', ''Friday'',
      ''Saturday'']"

definition initDayGroups :: "Date \<Rightarrow> (nat \<times> DayGroup) list" where
  "initDayGroups startDate =
     foldl (\<lambda>dayGroups i.
              let d = (getDay startDate + i) mod 7 in
              AList.update d
                \<lparr> count = 0, logs = [], day = daysOfWeek ! d, dayNumber = d \<rparr> dayGroups)
       [] [0..<7]"

definition dayStep ::
  "(nat \<times> DayGroup) list \<Rightarrow> MoodLog \<Rightarrow> jsError + (nat \<times> DayGroup) list" where
  "dayStep dayGroups moodLog =
     (let d = getDay (moodDate moodLog) in
      case map_of dayGroups d of
        None \<Rightarrow> Inl TypeError
      | Some g \<Rightarrow> Inr (AList.update d (pushLog g moodLog) dayGroups))"

text \<open>
  The result is \<open>Object.values(dayGroups)\<close> sorted by \<open>dayNumber\<close>; the sort of an array
  is stable.
\<close>

definition groupLogsByDay :: "MoodLog list \<Rightarrow> Date \<Rightarrow> jsError + DayGroup list" where
  "groupLogsByDay logList startDate =
     (case forEach dayStep logList (initDayGroups startDate) of
        Inl e \<Rightarrow> Inl e
      | Inr dayGroups \<Rightarrow> Inr (sort_key dayNumber (objectValuesByIndex dayGroups)))"

subsection \<open>\<open>groupLogsByDate\<close>\<close>

definition numDays :: "Date \<Rightarrow> Date \<Rightarrow> nat" where
  "numDays startDate endDate = nat (differenceInCalendarDays endDate startDate + 1)"

definition initDateGroups :: "Date \<Rightarrow> Date \<Rightarrow> (string \<times> DateGroup) list" where
  "initDateGroups startDate endDate =
     foldl (\<lambda>dateGroups i.
              let d = addDays startDate i; dateStr = format_yyyy_MM_dd d in
              AList.update dateStr
                \<lparr> count = 0, logs = [], date = dateStr, dateObj = d \<rparr> dateGroups)
       [] [0..<numDays startDate endDate]"

text \<open>
  The body of the loop over the logs: a log whose date string is no key is skipped. The
  guard \<open>if (dateGroups[dateStr])\<close> also holds for an inherited property, whose \<open>logs\<close>
  is undefined.
\<close>

definition dateStep ::
  "(string \<times> DateGroup) list \<Rightarrow> MoodLog \<Rightarrow> jsError + (string \<times> DateGroup) list" where
  "dateStep dateGroups moodLog =
     (let dateStr = format_yyyy_MM_dd (moodDate moodLog) in
      case getProperty dateGroups dateStr of
        Own g \<Rightarrow> Inr (AList.update dateStr (pushLog g moodLog) dateGroups)
      | Inherited \<Rightarrow> Inl TypeError
      | Undefined \<Rightarrow> Inr dateGroups)"

text \<open>
  The keys are date strings, which are not array indices, so \<open>Object.values\<close> lists the
  groups in the order of their creation; the result is sorted by the time of \<open>dateObj\<close>.
\<close>

definition groupLogsByDate ::
  "MoodLog list \<Rightarrow> Date \<Rightarrow> Date \<Rightarrow> jsError + DateGroup list" where
  "groupLogsByDate logList startDate endDate =
     (case forEach dateStep logList (initDateGroups startDate endDate) of
        Inl e \<Rightarrow> Inl e
      | Inr dateGroups \<Rightarrow> Inr (sort_key dateObj (map snd dateGroups)))"

section \<open>Numbers\<close>

text \<open>
  A JavaScript number is an IEEE 754 double. The values that occur here are counts (exact
  integers), the quotient of two counts and its product with 100; they are modelled as the
  rationals they denote, and each division and multiplication rounds its exact result to
  the nearest double, ties to the even significand. All values lie between the
  reciprocal of an array length and 100, so neither overflow nor subnormal numbers arise.
\<close>

definition pow2 :: "int \<Rightarrow> rat" where
  "pow2 e = (if 0 \<le> e then 2 ^ nat e else 1 / 2 ^ nat (- e))"

text \<open>The number of binary digits of a positive integer.\<close>

function bitLength :: "int \<Rightarrow> int" where
  "bitLength n = (if n \<le> 0 then 0 else bitLength (n div 2) + 1)"
  by pat_completeness auto
termination
  by (relation "measure nat") auto

text \<open>The exponent \<open>e\<close> with \<open>2^e \<le> x < 2^(e+1)\<close>, for a positive rational \<open>x\<close>.\<close>

definition floorLog2 :: "rat \<Rightarrow> int" where
  "floorLog2 x =
     (case quotient_of x of
        (p, q) \<Rightarrow>
          (let k = bitLength p - bitLength q in
           if pow2 k \<le> x then k else k - 1))"

definition roundHalfEven :: "rat \<Rightarrow> int" where
  "roundHalfEven x =
     (let f = \<lfloor>x\<rfloor>; r = x - of_int f in
      if r < 1 / 2 then f
      else if 1 / 2 < r then f + 1
      else if even f then f else f + 1)"

text \<open>The double nearest to a rational that is not negative (53 bits of significand).\<close>

definition toDouble :: "rat \<Rightarrow> rat" where
  "toDouble x =
     (if x \<le> 0 then 0
      else let e = floorLog2 x - 52 in of_int (roundHalfEven (x / pow2 e)) * pow2 e)"

definition doubleDiv :: "rat \<Rightarrow> rat \<Rightarrow> rat" where
  "doubleDiv a b = toDouble (a / b)"

definition doubleMul :: "rat \<Rightarrow> rat \<Rightarrow> rat" where
  "doubleMul a b = toDouble (a * b)"

text \<open>\<open>Math.round\<close>: the nearest integer, a tie going up.\<close>

definition Math_round :: "rat \<Rightarrow> int" where
  "Math_round x = \<lfloor>x + 1 / 2\<rfloor>"

section \<open>The mood summary\<close>

datatype Period = Day | Week | Month

text \<open>The categories are numbers for the day view and strings for the other two.\<close>

datatype Category = Num nat | Str string

definition getCategoriesForPeriod :: "Period \<Rightarrow> Date \<Rightarrow> Date \<Rightarrow> Category list" where
  "getCategoriesForPeriod period startDate endDate =
     (case period of
        Day \<Rightarrow> map Num [0..<24]
      | Week \<Rightarrow>
          map Str [''Sunday'', ''Monday'', ''Tuesday'', ''Wednesday'', ''Thursday'',
                   ''Friday'', ''Saturday'']
      | Month \<Rightarrow>
          map (\<lambda>i. Str (format_yyyy_MM_dd (addDays startDate i)))
            [0..<numDays startDate endDate])"

record MoodCount = Counted +
  emoji :: string
  color :: string
  percentage :: int

text \<open>
  The body of the loop that counts the moods. The test \<open>!summary.moodCounts[moodName]\<close>
  fails for an own entry and for an inherited property alike; in the second case no
  entry is created, and \<open>count++\<close> is applied to the inherited value, which leaves
  \<open>moodCounts\<close> as it is.
\<close>

definition countStep :: "(string \<times> MoodCount) list \<Rightarrow> MoodLog \<Rightarrow> (string \<times> MoodCount) list" where
  "countStep moodCounts moodLog =
     (let name = moodName moodLog;
          moodCounts' =
            (case getProperty moodCounts name of
               Undefined \<Rightarrow>
                 AList.update name
                   \<lparr> count = 0, emoji = moodEmoji moodLog, color = moodColour moodLog,
                     percentage = 0 \<rparr> moodCounts
             | _ \<Rightarrow> moodCounts)
      in case getProperty moodCounts' name of
           Own entry \<Rightarrow> AList.update name (entry\<lparr> count := count entry + 1 \<rparr>) moodCounts'
         | _ \<Rightarrow> moodCounts')"

text \<open>
  \<open>logs.length > 0 ? Math.round((count / logs.length) * 100) : 0\<close>
\<close>

definition percentageOf :: "nat \<Rightarrow> nat \<Rightarrow> int" where
  "percentageOf cnt len =
     (if len > 0
      then Math_round (doubleMul (doubleDiv (of_nat cnt) (of_nat len)) 100)
      else 0)"

record MoodSummary =
  period :: Period
  timeRangeStart :: Date
  timeRangeEnd :: Date
  totalLogs :: nat
  moodCounts :: "(string \<times> MoodCount) list"
  categories :: "Category list"

text \<open>
  \<open>getMoodSummary\<close>, from the result of the repository query on: the window
  \<open>startDate\<close>, \<open>endDate\<close> computed from the clock and the logs found in it are
  parameters. \<open>moodCounts\<close> lists the own properties of the object of that name.
\<close>

definition getMoodSummary :: "Period \<Rightarrow> Date \<Rightarrow> Date \<Rightarrow> MoodLog list \<Rightarrow> MoodSummary" where
  "getMoodSummary p startDate endDate logList =
     (let counted = foldl countStep [] logList in
      \<lparr> period = p, timeRangeStart = startDate, timeRangeEnd = endDate,
        totalLogs = length logList,
        moodCounts =
          map (\<lambda>(mood, entry).
                 (mood, entry\<lparr> percentage := percentageOf (count entry) (length logList) \<rparr>))
            counted,
        categories = getCategoriesForPeriod p startDate endDate \<rparr>)"

section \<open>Notions used in the statements\<close>

text \<open>A group after a list of logs has been pushed to it.\<close>

definition pushAll :: "'a LogGroup_scheme \<Rightarrow> MoodLog list \<Rightarrow> 'a LogGroup_scheme" where
  "pushAll g ls = g\<lparr> logs := logs g @ ls, count := count g + length ls \<rparr>"

text \<open>
  The entry that the counting loop creates for the mood of a log, with a given count.
\<close>

definition firstEntry :: "MoodLog \<Rightarrow> nat \<Rightarrow> MoodCount" where
  "firstEntry l n =
     \<lparr> count = n, emoji = moodEmoji l, color = moodColour l, percentage = 0 \<rparr>"

text \<open>The number of logs with a given mood name.\<close>

definition countOf :: "MoodLog list \<Rightarrow> string \<Rightarrow> nat" where
  "countOf ls n = length (filter (\<lambda>l. moodName l = n) ls)"

text \<open>
  The number of days of a year before the first day of a month; the value of a digit,
  which is its place among the ten digits; and the value of a string of digits.
\<close>

definition monthStart :: "int \<Rightarrow> int \<Rightarrow> int" where
  "monthStart leap m =
     (if m = 1 then 0 else if m = 2 then 31 else if m = 3 then 59 + leap
      else if m = 4 then 90 + leap else if m = 5 then 120 + leap
      else if m = 6 then 151 + leap else if m = 7 then 181 + leap
      else if m = 8 then 212 + leap else if m = 9 then 243 + leap
      else if m = 10 then 273 + leap else if m = 11 then 304 + leap
      else 334 + leap)"

definition digitValue :: "char \<Rightarrow> nat" where
  "digitValue c = length (takeWhile (\<lambda>d. d \<noteq> c) ''0123456789'')"

definition parseNat :: "string \<Rightarrow> nat" where
  "parseNat s = foldl (\<lambda>acc c. 10 * acc + digitValue c) 0 s"

section \<open>Facts about the date functions\<close>

lemma startOfDay_idem: "startOfDay (startOfDay t) = startOfDay t"
  by (simp add: startOfDay_def msPerDay_def)

lemma startOfDay_eq: "startOfDay t = (t div msPerDay) * msPerDay"
  by (simp add: startOfDay_def minus_mod_eq_div_mult)

lemma diff_days: "differenceInCalendarDays a b = a div msPerDay - b div msPerDay"
proof -
  have "startOfDay a - startOfDay b = (a div msPerDay - b div msPerDay) * msPerDay"
    unfolding startOfDay_eq by (rule left_diff_distrib [symmetric])
  moreover have "msPerDay \<noteq> 0" by (simp add: msPerDay_def)
  ultimately show ?thesis
    unfolding differenceInCalendarDays_def by (metis nonzero_mult_div_cancel_right)
qed

lemma diff_startOfDay_right:
  "differenceInCalendarDays a (startOfDay b) = differenceInCalendarDays a b"
  by (simp add: differenceInCalendarDays_def startOfDay_idem)

lemma differenceInCalendarDays_startOfDay:
  "differenceInCalendarDays (startOfDay a) (startOfDay b) = differenceInCalendarDays a b"
  by (simp add: differenceInCalendarDays_def startOfDay_idem)

lemma startOfDay_le_iff:
  "startOfDay a \<le> startOfDay b \<longleftrightarrow> differenceInCalendarDays a b \<le> 0"
proof -
  have "0 < msPerDay" by (simp add: msPerDay_def)
  then have "(a div msPerDay) * msPerDay \<le> (b div msPerDay) * msPerDay \<longleftrightarrow>
     a div msPerDay \<le> b div msPerDay"
    by (rule mult_le_cancel_right_pos)
  then show ?thesis by (simp only: startOfDay_eq diff_days diff_le_0_iff_le)
qed

section \<open>The branches of the streak update\<close>

lemma update_absent:
  assumes "repo uid = None"
  shows "fst (updateUserStreak repo uid d) =
      \<lparr> userId = uid, currentStreak = 1, longestStreak = 1,
        lastLogDate = Some (startOfDay d), isActive = True,
        currentStreakStartDate = Some (startOfDay d),
        longestStreakStartDate = Some (startOfDay d),
        longestStreakEndDate = Some (startOfDay d) \<rparr>"
  using assms by (simp add: updateUserStreak_def Let_def)

lemma update_no_last:
  assumes "repo uid = Some s" "lastLogDate s = None"
  shows "fst (updateUserStreak repo uid d) =
     s\<lparr> currentStreak := 1, lastLogDate := Some (startOfDay d), isActive := True,
        currentStreakStartDate := Some (startOfDay d) \<rparr>"
  using assms by (simp add: updateUserStreak_def Let_def)

lemma update_found:
  assumes "repo uid = Some s" "lastLogDate s = Some l"
  shows "fst (updateUserStreak repo uid d) =
     (if differenceInCalendarDays d l = 0 then s\<lparr> lastLogDate := Some (startOfDay d) \<rparr>
      else if differenceInCalendarDays d l = 1 then
        (if currentStreak s + 1 > longestStreak s then
           s\<lparr> currentStreak := currentStreak s + 1, lastLogDate := Some (startOfDay d),
              isActive := True, longestStreak := currentStreak s + 1,
              longestStreakStartDate := currentStreakStartDate s,
              longestStreakEndDate := Some (startOfDay d) \<rparr>
         else s\<lparr> currentStreak := currentStreak s + 1, lastLogDate := Some (startOfDay d),
                 isActive := True \<rparr>)
      else if differenceInCalendarDays d l > 1 then
        s\<lparr> currentStreak := 1, lastLogDate := Some (startOfDay d),
           currentStreakStartDate := Some (startOfDay d), isActive := True \<rparr>
      else s)"
  using assms
  by (simp add: updateUserStreak_def Let_def differenceInCalendarDays_startOfDay)

lemma update_saves:
  "snd (updateUserStreak repo uid d) = repo(uid \<mapsto> fst (updateUserStreak repo uid d))"
  by (simp add: updateUserStreak_def Let_def)

lemma update_saved_lookup:
  "snd (updateUserStreak repo uid d) uid = Some (fst (updateUserStreak repo uid d))"
  by (simp add: update_saves)

lemma streakAfterLogs_snoc:
  "streakAfterLogs repo uid (ds @ [d]) =
     snd (updateUserStreak (streakAfterLogs repo uid ds) uid d)"
  by (simp add: streakAfterLogs_def)

text \<open>Logs on three consecutive days, starting with no record.\<close>

lemma three_days:
  assumes "repo uid = None"
    and "differenceInCalendarDays d2 d1 = 1"
    and "differenceInCalendarDays d3 d2 = 1"
  shows "streakAfterLogs repo uid [d1, d2, d3] uid =
     Some \<lparr> userId = uid, currentStreak = 3, longestStreak = 3,
            lastLogDate = Some (startOfDay d3), isActive = True,
            currentStreakStartDate = Some (startOfDay d1),
            longestStreakStartDate = Some (startOfDay d1),
            longestStreakEndDate = Some (startOfDay d3) \<rparr>"
proof -
  define r1 where "r1 = fst (updateUserStreak repo uid d1)"
  define p1 where "p1 = snd (updateUserStreak repo uid d1)"
  define r2 where "r2 = fst (updateUserStreak p1 uid d2)"
  define p2 where "p2 = snd (updateUserStreak p1 uid d2)"
  define r3 where "r3 = fst (updateUserStreak p2 uid d3)"
  have r1: "r1 = \<lparr> userId = uid, currentStreak = 1, longestStreak = 1,
             lastLogDate = Some (startOfDay d1), isActive = True,
             currentStreakStartDate = Some (startOfDay d1),
             longestStreakStartDate = Some (startOfDay d1),
             longestStreakEndDate = Some (startOfDay d1) \<rparr>"
    using assms by (simp add: r1_def update_absent)
  have p1: "p1 uid = Some r1"
    by (simp add: p1_def r1_def update_saved_lookup)
  have r2: "r2 = r1\<lparr> currentStreak := 2, lastLogDate := Some (startOfDay d2),
                 longestStreak := 2, longestStreakEndDate := Some (startOfDay d2) \<rparr>"
    unfolding r2_def using assms update_found [of p1 uid r1 "startOfDay d1" d2] p1
    by (simp add: r1 diff_startOfDay_right)
  have p2: "p2 uid = Some r2"
    by (simp add: p2_def r2_def update_saved_lookup)
  have r3: "r3 = r1\<lparr> currentStreak := 3, lastLogDate := Some (startOfDay d3),
                 longestStreak := 3, longestStreakEndDate := Some (startOfDay d3) \<rparr>"
    unfolding r3_def using assms update_found [of p2 uid r2 "startOfDay d2" d3] p2
    by (simp add: r2 r1 diff_startOfDay_right)
  have "streakAfterLogs repo uid [d1, d2, d3] uid = Some r3"
    by (simp add: streakAfterLogs_def r3_def p2_def p1_def update_saved_lookup)
  then show ?thesis by (simp add: r3 r1)
qed

section \<open>Reachable streak records\<close>

lemma reachable_has_last: "reachable s \<Longrightarrow> lastLogDate s \<noteq> None"
proof (induction rule: reachable.induct)
  case (first_log repo uid d)
  then show ?case by (simp add: update_absent)
next
  case (later_log s repo uid d)
  then obtain l where l: "lastLogDate s = Some l" by auto
  show ?case using later_log(2) l by (simp add: update_found)
qed

lemma reachable_active: "reachable s \<Longrightarrow> isActive s"
proof (induction rule: reachable.induct)
  case (first_log repo uid d)
  then show ?case by (simp add: update_absent)
next
  case (later_log s repo uid d)
  from reachable_has_last [OF later_log(1)]
  obtain l where l: "lastLogDate s = Some l" by auto
  show ?case using later_log l by (simp add: update_found)
qed

lemma invariant_absent:
  "repo uid = None \<Longrightarrow> streakInvariant (fst (updateUserStreak repo uid d))"
  by (simp add: update_absent streakInvariant_def startNotAfterLast_def)

lemma invariant_step:
  assumes "repo uid = Some s"
    and "1 \<le> longestStreak s"
    and "currentStreak s \<le> longestStreak s"
    and "lastLogDate s = None \<or> startNotAfterLast s"
  shows "streakInvariant (fst (updateUserStreak repo uid d)) \<and>
         1 \<le> longestStreak (fst (updateUserStreak repo uid d))"
proof (cases "lastLogDate s")
  case None
  then show ?thesis using assms
    by (simp add: update_no_last streakInvariant_def startNotAfterLast_def)
next
  case (Some l)
  with assms(4) obtain a
    where a: "currentStreakStartDate s = Some a" "differenceInCalendarDays a l \<le> 0"
    by (auto simp: startNotAfterLast_def startOfDay_le_iff split: option.splits)
  have "differenceInCalendarDays a d =
          differenceInCalendarDays a l - differenceInCalendarDays d l"
    by (simp add: diff_days)
  then show ?thesis using assms(1-3) Some a
    by (simp add: update_found streakInvariant_def startNotAfterLast_def
          startOfDay_le_iff diff_startOfDay_right)
qed

lemma reachable_sound:
  "reachable s \<Longrightarrow> streakInvariant s \<and> 1 \<le> longestStreak s"
proof (induction rule: reachable.induct)
  case (first_log repo uid d)
  then show ?case using invariant_absent [of repo uid d]
    by (simp add: update_absent)
next
  case (later_log s repo uid d)
  then show ?case
    using invariant_step [of repo uid s d] by (simp add: streakInvariant_def)
qed

section \<open>The first log\<close>

text \<open>
  C4. When the user has no streak record, the update with log date \<open>D\<close> returns a record
  with current and longest streak 1, active, and all four dates equal to the start of
  the calendar day of \<open>D\<close>.
\<close>

theorem first_log_creates_streak:
  assumes "repo uid = None"
  shows "fst (updateUserStreak repo uid D) =
           \<lparr> userId = uid, currentStreak = 1, longestStreak = 1,
             lastLogDate = Some (startOfDay D), isActive = True,
             currentStreakStartDate = Some (startOfDay D),
             longestStreakStartDate = Some (startOfDay D),
             longestStreakEndDate = Some (startOfDay D) \<rparr>"
  using assms by (simp add: updateUserStreak_def Let_def)

theorem first_log_creates_streak_witness:
  "fst (updateUserStreak Map.empty ''u1'' 1700000000000) =
           \<lparr> userId = ''u1'', currentStreak = 1, longestStreak = 1,
             lastLogDate = Some 1699920000000, isActive = True,
             currentStreakStartDate = Some 1699920000000,
             longestStreakStartDate = Some 1699920000000,
             longestStreakEndDate = Some 1699920000000 \<rparr>"
  using first_log_creates_streak [of Map.empty "''u1''" 1700000000000]
  by (simp add: startOfDay_def msPerDay_def)

section \<open>A log on the next day\<close>

text \<open>
  C1. When the found record has a last log date and the log falls on the calendar day
  after it, the update adds 1 to the current streak, moves the last log date to the
  start of the log's day and sets the record active; the longest streak, with its
  start taken from the current streak's start and its end at the log's day, is replaced
  exactly when the new current streak exceeds it, and is otherwise left as it was.
  Three logs on consecutive days, starting with no record, give current and longest
  streak 3 with the longest streak ending on the third day.
\<close>

theorem consecutive_day_extends:
  "(repo uid = Some s \<and> lastLogDate s = Some l \<and> differenceInCalendarDays d l = 1 \<longrightarrow>
      fst (updateUserStreak repo uid d) =
        (if currentStreak s + 1 > longestStreak s
         then s\<lparr> currentStreak := currentStreak s + 1, lastLogDate := Some (startOfDay d),
                 isActive := True, longestStreak := currentStreak s + 1,
                 longestStreakStartDate := currentStreakStartDate s,
                 longestStreakEndDate := Some (startOfDay d) \<rparr>
         else s\<lparr> currentStreak := currentStreak s + 1, lastLogDate := Some (startOfDay d),
                 isActive := True \<rparr>))
   \<and> (repo' uid' = None \<and> differenceInCalendarDays d2 d1 = 1 \<and>
        differenceInCalendarDays d3 d2 = 1 \<longrightarrow>
      (\<exists>r. streakAfterLogs repo' uid' [d1, d2, d3] uid' = Some r \<and> currentStreak r = 3 \<and>
           longestStreak r = 3 \<and> longestStreakEndDate r = Some (startOfDay d3)))"
proof (intro conjI impI)
  assume "repo uid = Some s \<and> lastLogDate s = Some l \<and> differenceInCalendarDays d l = 1"
  then show "fst (updateUserStreak repo uid d) =
        (if currentStreak s + 1 > longestStreak s
         then s\<lparr> currentStreak := currentStreak s + 1, lastLogDate := Some (startOfDay d),
                 isActive := True, longestStreak := currentStreak s + 1,
                 longestStreakStartDate := currentStreakStartDate s,
                 longestStreakEndDate := Some (startOfDay d) \<rparr>
         else s\<lparr> currentStreak := currentStreak s + 1, lastLogDate := Some (startOfDay d),
                 isActive := True \<rparr>)"
    by (simp add: update_found)
next
  assume "repo' uid' = None \<and> differenceInCalendarDays d2 d1 = 1 \<and>
        differenceInCalendarDays d3 d2 = 1"
  then show "\<exists>r. streakAfterLogs repo' uid' [d1, d2, d3] uid' = Some r \<and> currentStreak r = 3 \<and>
           longestStreak r = 3 \<and> longestStreakEndDate r = Some (startOfDay d3)"
    using three_days [of repo' uid' d2 d1 d3] by simp
qed

theorem consecutive_day_extends_witness:
  "(differenceInCalendarDays 176400000 86400000 = 1 \<and>
    fst (updateUserStreak
          (Map.empty(''u1'' \<mapsto>
             \<lparr> userId = ''u1'', currentStreak = 2, longestStreak = 2,
               lastLogDate = Some 86400000, isActive = False,
               currentStreakStartDate = Some 0, longestStreakStartDate = Some 0,
               longestStreakEndDate = Some 86400000 \<rparr>))
          ''u1'' 176400000) =
      \<lparr> userId = ''u1'', currentStreak = 3, longestStreak = 3,
        lastLogDate = Some 172800000, isActive = True,
        currentStreakStartDate = Some 0, longestStreakStartDate = Some 0,
        longestStreakEndDate = Some 172800000 \<rparr>)
   \<and> (differenceInCalendarDays 86400005 1000 = 1 \<and>
      differenceInCalendarDays 259199999 86400005 = 1 \<and>
      (\<exists>r. streakAfterLogs Map.empty ''u2'' [1000, 86400005, 259199999] ''u2'' = Some r \<and>
           currentStreak r = 3 \<and> longestStreak r = 3 \<and>
           longestStreakEndDate r = Some (startOfDay 259199999)))"
  using consecutive_day_extends
    [where repo = "Map.empty(''u1'' \<mapsto>
             \<lparr> userId = ''u1'', currentStreak = 2, longestStreak = 2,
               lastLogDate = Some 86400000, isActive = False,
               currentStreakStartDate = Some 0, longestStreakStartDate = Some 0,
               longestStreakEndDate = Some 86400000 \<rparr>)"
       and uid = "''u1''" and l = 86400000 and d = 176400000
       and s = "\<lparr> userId = ''u1'', currentStreak = 2, longestStreak = 2,
               lastLogDate = Some 86400000, isActive = False,
               currentStreakStartDate = Some 0, longestStreakStartDate = Some 0,
               longestStreakEndDate = Some 86400000 \<rparr>"
       and repo' = Map.empty and uid' = "''u2''"
       and ?d1.0 = 1000 and ?d2.0 = 86400005 and ?d3.0 = 259199999]
  by (simp add: differenceInCalendarDays_def startOfDay_def msPerDay_def)


section \<open>A log after a gap\<close>

text \<open>
  C5. When the found record has a last log date and the log falls more than one calendar
  day after it, the update sets the current streak to 1, moves the last log date and
  the start of the current streak to the start of the log's day and sets the record
  active; the longest streak and its two dates are unchanged. After logs on three
  consecutive days, a log after a gap and a log on the day after that, the longest
  streak is still 3 with its first range of dates, and the current streak is 2.
\<close>

theorem gap_resets_current_keeps_longest:
  "(repo uid = Some s \<and> lastLogDate s = Some l \<and> differenceInCalendarDays d l > 1 \<longrightarrow>
      fst (updateUserStreak repo uid d) =
        s\<lparr> currentStreak := 1, lastLogDate := Some (startOfDay d),
           currentStreakStartDate := Some (startOfDay d), isActive := True \<rparr>
      \<and> longestStreak (fst (updateUserStreak repo uid d)) = longestStreak s
      \<and> longestStreakStartDate (fst (updateUserStreak repo uid d)) = longestStreakStartDate s
      \<and> longestStreakEndDate (fst (updateUserStreak repo uid d)) = longestStreakEndDate s)
   \<and> (repo' uid' = None \<and> differenceInCalendarDays d2 d1 = 1 \<and>
        differenceInCalendarDays d3 d2 = 1 \<and> differenceInCalendarDays d4 d3 > 1 \<and>
        differenceInCalendarDays d5 d4 = 1 \<longrightarrow>
      (\<exists>r. streakAfterLogs repo' uid' [d1, d2, d3, d4, d5] uid' = Some r \<and>
           currentStreak r = 2 \<and> longestStreak r = 3 \<and>
           longestStreakStartDate r = Some (startOfDay d1) \<and>
           longestStreakEndDate r = Some (startOfDay d3)))"
proof (intro conjI impI)
  assume a: "repo uid = Some s \<and> lastLogDate s = Some l \<and> differenceInCalendarDays d l > 1"
  then show "fst (updateUserStreak repo uid d) =
        s\<lparr> currentStreak := 1, lastLogDate := Some (startOfDay d),
           currentStreakStartDate := Some (startOfDay d), isActive := True \<rparr>"
    by (simp add: update_found)
  from a show "longestStreak (fst (updateUserStreak repo uid d)) = longestStreak s"
    by (simp add: update_found)
  from a show "longestStreakStartDate (fst (updateUserStreak repo uid d)) =
      longestStreakStartDate s"
    by (simp add: update_found)
  from a show "longestStreakEndDate (fst (updateUserStreak repo uid d)) =
      longestStreakEndDate s"
    by (simp add: update_found)
next
  assume a: "repo' uid' = None \<and> differenceInCalendarDays d2 d1 = 1 \<and>
        differenceInCalendarDays d3 d2 = 1 \<and> differenceInCalendarDays d4 d3 > 1 \<and>
        differenceInCalendarDays d5 d4 = 1"
  define p3 where "p3 = streakAfterLogs repo' uid' [d1, d2, d3]"
  define r3 where "r3 = \<lparr> userId = uid', currentStreak = 3, longestStreak = 3,
             lastLogDate = Some (startOfDay d3), isActive = True,
             currentStreakStartDate = Some (startOfDay d1),
             longestStreakStartDate = Some (startOfDay d1),
             longestStreakEndDate = Some (startOfDay d3) \<rparr>"
  have p3: "p3 uid' = Some r3"
    unfolding p3_def r3_def using a by (intro three_days) simp_all
  define r4 where "r4 = fst (updateUserStreak p3 uid' d4)"
  define p4 where "p4 = snd (updateUserStreak p3 uid' d4)"
  define r5 where "r5 = fst (updateUserStreak p4 uid' d5)"
  have r4: "r4 = r3\<lparr> currentStreak := 1, lastLogDate := Some (startOfDay d4),
           currentStreakStartDate := Some (startOfDay d4) \<rparr>"
    unfolding r4_def using a update_found [of p3 uid' r3 "startOfDay d3" d4] p3
    by (simp add: r3_def diff_startOfDay_right)
  have p4: "p4 uid' = Some r4"
    by (simp add: p4_def r4_def update_saved_lookup)
  have r5: "r5 = r4\<lparr> currentStreak := 2, lastLogDate := Some (startOfDay d5) \<rparr>"
    unfolding r5_def using a update_found [of p4 uid' r4 "startOfDay d4" d5] p4
    by (simp add: r4 r3_def diff_startOfDay_right)
  have "streakAfterLogs repo' uid' [d1, d2, d3, d4, d5] uid' = Some r5"
    using streakAfterLogs_snoc [of repo' uid' "[d1, d2, d3, d4]" d5]
          streakAfterLogs_snoc [of repo' uid' "[d1, d2, d3]" d4]
    by (simp add: r5_def p4_def p3_def update_saved_lookup)
  then show "\<exists>r. streakAfterLogs repo' uid' [d1, d2, d3, d4, d5] uid' = Some r \<and>
           currentStreak r = 2 \<and> longestStreak r = 3 \<and>
           longestStreakStartDate r = Some (startOfDay d1) \<and>
           longestStreakEndDate r = Some (startOfDay d3)"
    by (simp add: r5 r4 r3_def)
qed

theorem gap_resets_current_keeps_longest_witness:
  "(differenceInCalendarDays 864000000 86400000 > 1 \<and>
    fst (updateUserStreak
          (Map.empty(''u1'' \<mapsto>
             \<lparr> userId = ''u1'', currentStreak = 2, longestStreak = 5,
               lastLogDate = Some 86400000, isActive = True,
               currentStreakStartDate = Some 0, longestStreakStartDate = Some (- 864000000),
               longestStreakEndDate = Some (- 518400000) \<rparr>))
          ''u1'' 864000000) =
      \<lparr> userId = ''u1'', currentStreak = 1, longestStreak = 5,
        lastLogDate = Some 864000000, isActive = True,
        currentStreakStartDate = Some 864000000,
        longestStreakStartDate = Some (- 864000000),
        longestStreakEndDate = Some (- 518400000) \<rparr>)
   \<and> (differenceInCalendarDays 86400005 1000 = 1 \<and>
      differenceInCalendarDays 259199999 86400005 = 1 \<and>
      differenceInCalendarDays 777600000 259199999 > 1 \<and>
      differenceInCalendarDays 864000000 777600000 = 1 \<and>
      (\<exists>r. streakAfterLogs Map.empty ''u2''
              [1000, 86400005, 259199999, 777600000, 864000000] ''u2'' = Some r \<and>
           currentStreak r = 2 \<and> longestStreak r = 3 \<and>
           longestStreakStartDate r = Some 0 \<and>
           longestStreakEndDate r = Some 172800000))"
  using gap_resets_current_keeps_longest
    [where repo = "Map.empty(''u1'' \<mapsto>
             \<lparr> userId = ''u1'', currentStreak = 2, longestStreak = 5,
               lastLogDate = Some 86400000, isActive = True,
               currentStreakStartDate = Some 0, longestStreakStartDate = Some (- 864000000),
               longestStreakEndDate = Some (- 518400000) \<rparr>)"
       and uid = "''u1''" and l = 86400000 and d = 864000000
       and s = "\<lparr> userId = ''u1'', currentStreak = 2, longestStreak = 5,
               lastLogDate = Some 86400000, isActive = True,
               currentStreakStartDate = Some 0, longestStreakStartDate = Some (- 864000000),
               longestStreakEndDate = Some (- 518400000) \<rparr>"
       and repo' = Map.empty and uid' = "''u2''"
       and ?d1.0 = 1000 and ?d2.0 = 86400005 and ?d3.0 = 259199999
       and ?d4.0 = 777600000 and ?d5.0 = 864000000]
  by (simp add: differenceInCalendarDays_def startOfDay_def msPerDay_def)

section \<open>A log on an earlier day\<close>

text \<open>
  C10. When the found record has a last log date and the log falls on a calendar day
  before it, no branch of the update applies: the record is saved and returned with
  every field as it was, the last log date included, and the repository is unchanged.
\<close>

theorem earlier_day_changes_nothing:
  assumes "repo uid = Some s"
    and "lastLogDate s = Some l"
    and "differenceInCalendarDays d l < 0"
  shows "updateUserStreak repo uid d = (s, repo)"
proof -
  have "fst (updateUserStreak repo uid d) = s"
    using assms by (simp add: update_found)
  moreover have "repo(uid \<mapsto> s) = repo"
    using assms(1) by (simp add: map_upd_triv)
  ultimately show ?thesis
    using update_saves [of repo uid d] by (simp add: prod_eq_iff)
qed

theorem earlier_day_changes_nothing_witness:
  "differenceInCalendarDays 86399999 172800000 < 0 \<and>
   fst (updateUserStreak
     (Map.empty(''u1'' \<mapsto>
        \<lparr> userId = ''u1'', currentStreak = 3, longestStreak = 3,
          lastLogDate = Some 172800000, isActive = True,
          currentStreakStartDate = Some 0, longestStreakStartDate = Some 0,
          longestStreakEndDate = Some 172800000 \<rparr>))
     ''u1'' 86399999) =
     \<lparr> userId = ''u1'', currentStreak = 3, longestStreak = 3,
       lastLogDate = Some 172800000, isActive = True,
       currentStreakStartDate = Some 0, longestStreakStartDate = Some 0,
       longestStreakEndDate = Some 172800000 \<rparr>"
proof -
  have h: "differenceInCalendarDays 86399999 172800000 < 0"
    by (simp add: differenceInCalendarDays_def startOfDay_def msPerDay_def)
  show ?thesis
    using h earlier_day_changes_nothing
      [where repo = "Map.empty(''u1'' \<mapsto>
        \<lparr> userId = ''u1'', currentStreak = 3, longestStreak = 3,
          lastLogDate = Some 172800000, isActive = True,
          currentStreakStartDate = Some 0, longestStreakStartDate = Some 0,
          longestStreakEndDate = Some 172800000 \<rparr>)"
        and uid = "''u1''" and l = 172800000 and d = 86399999, OF _ _ h]
    by simp
qed

section \<open>A record without a last log date\<close>

text \<open>
  C6, as the code has it. When the found record has no last log date, the update sets
  the current streak to 1, the last log date and the start of the current streak to the
  start of the log's day, and the record active; the longest streak and its two dates
  are left as they were found, so the result is the first-log record only when the
  longest streak was already 1 with both its dates on the log's day.
\<close>

theorem missing_last_log_date_resets_current:
  assumes "repo uid = Some s"
    and "lastLogDate s = None"
  shows "fst (updateUserStreak repo uid D) =
           s\<lparr> currentStreak := 1, lastLogDate := Some (startOfDay D), isActive := True,
              currentStreakStartDate := Some (startOfDay D) \<rparr>
         \<and> longestStreak (fst (updateUserStreak repo uid D)) = longestStreak s
         \<and> longestStreakStartDate (fst (updateUserStreak repo uid D)) =
             longestStreakStartDate s
         \<and> longestStreakEndDate (fst (updateUserStreak repo uid D)) =
             longestStreakEndDate s"
  using assms by (simp add: update_no_last)

theorem missing_last_log_date_resets_current_witness:
  "fst (updateUserStreak
     (Map.empty(''u1'' \<mapsto>
        \<lparr> userId = ''u1'', currentStreak = 0, longestStreak = 7,
          lastLogDate = None, isActive = False,
          currentStreakStartDate = None, longestStreakStartDate = Some 0,
          longestStreakEndDate = Some 518400000 \<rparr>))
     ''u1'' 1700000000000) =
     \<lparr> userId = ''u1'', currentStreak = 1, longestStreak = 7,
       lastLogDate = Some 1699920000000, isActive = True,
       currentStreakStartDate = Some 1699920000000, longestStreakStartDate = Some 0,
       longestStreakEndDate = Some 518400000 \<rparr>"
  using missing_last_log_date_resets_current
      [where repo = "Map.empty(''u1'' \<mapsto>
        \<lparr> userId = ''u1'', currentStreak = 0, longestStreak = 7,
          lastLogDate = None, isActive = False,
          currentStreakStartDate = None, longestStreakStartDate = Some 0,
          longestStreakEndDate = Some 518400000 \<rparr>)"
        and uid = "''u1''" and D = 1700000000000]
  by (simp add: startOfDay_def msPerDay_def)

text \<open>
  The claim as written fails: a record with longest streak 7 and no last log date keeps
  its longest streak, where the first-log record has longest streak 1.
\<close>

theorem missing_last_log_date_counterexample:
  "longestStreak (fst (updateUserStreak
     (Map.empty(''u1'' \<mapsto>
        \<lparr> userId = ''u1'', currentStreak = 0, longestStreak = 7,
          lastLogDate = None, isActive = False,
          currentStreakStartDate = None, longestStreakStartDate = Some 0,
          longestStreakEndDate = Some 518400000 \<rparr>))
     ''u1'' 1700000000000)) \<noteq> 1
   \<and> fst (updateUserStreak
     (Map.empty(''u1'' \<mapsto>
        \<lparr> userId = ''u1'', currentStreak = 0, longestStreak = 7,
          lastLogDate = None, isActive = False,
          currentStreakStartDate = None, longestStreakStartDate = Some 0,
          longestStreakEndDate = Some 518400000 \<rparr>))
     ''u1'' 1700000000000) \<noteq> fst (updateUserStreak Map.empty ''u1'' 1700000000000)"
  by (simp add: updateUserStreak_def Let_def startOfDay_def msPerDay_def)

section \<open>The active flag\<close>

text \<open>
  C7, as the code has it. The update returns an active record when no record was
  found, when the found record has no last log date, and when the log falls on a later
  calendar day than the last log date. When the log falls on the same day or on an
  earlier day, the flag is returned as it was found. Every record reachable from a
  first log is active.
\<close>

theorem active_flag_after_update:
  "(repo1 uid1 = None \<longrightarrow> isActive (fst (updateUserStreak repo1 uid1 d1)))
   \<and> (repo2 uid2 = Some s2 \<and> lastLogDate s2 = None \<longrightarrow>
        isActive (fst (updateUserStreak repo2 uid2 d2)))
   \<and> (repo3 uid3 = Some s3 \<and> lastLogDate s3 = Some l3 \<and>
        differenceInCalendarDays d3 l3 \<ge> 1 \<longrightarrow>
        isActive (fst (updateUserStreak repo3 uid3 d3)))
   \<and> (repo4 uid4 = Some s4 \<and> lastLogDate s4 = Some l4 \<and>
        differenceInCalendarDays d4 l4 \<le> 0 \<longrightarrow>
        isActive (fst (updateUserStreak repo4 uid4 d4)) = isActive s4)
   \<and> (reachable t \<longrightarrow> isActive t)"
proof (intro conjI impI)
  assume "repo1 uid1 = None"
  then show "isActive (fst (updateUserStreak repo1 uid1 d1))"
    by (simp add: update_absent)
next
  assume "repo2 uid2 = Some s2 \<and> lastLogDate s2 = None"
  then show "isActive (fst (updateUserStreak repo2 uid2 d2))"
    by (simp add: update_no_last)
next
  assume "repo3 uid3 = Some s3 \<and> lastLogDate s3 = Some l3 \<and>
        differenceInCalendarDays d3 l3 \<ge> 1"
  then show "isActive (fst (updateUserStreak repo3 uid3 d3))"
    by (simp add: update_found)
next
  assume "repo4 uid4 = Some s4 \<and> lastLogDate s4 = Some l4 \<and>
        differenceInCalendarDays d4 l4 \<le> 0"
  then show "isActive (fst (updateUserStreak repo4 uid4 d4)) = isActive s4"
    by (simp add: update_found)
next
  assume "reachable t"
  then show "isActive t" by (rule reachable_active)
qed


theorem active_flag_after_update_witness:
  "isActive (fst (updateUserStreak Map.empty ''u1'' 0))
   \<and> isActive (fst (updateUserStreak
        (Map.empty(''u1'' \<mapsto> (entityDefaults ''u1'')\<lparr> isActive := False \<rparr>)) ''u1'' 0))
   \<and> (differenceInCalendarDays 176400000 86400000 \<ge> 1 \<and>
      isActive (fst (updateUserStreak
        (Map.empty(''u1'' \<mapsto>
          \<lparr> userId = ''u1'', currentStreak = 2, longestStreak = 2,
            lastLogDate = Some 86400000, isActive = False,
            currentStreakStartDate = Some 0, longestStreakStartDate = Some 0,
            longestStreakEndDate = Some 86400000 \<rparr>)) ''u1'' 176400000)))
   \<and> (differenceInCalendarDays 86400000 90000000 \<le> 0 \<and>
      isActive (fst (updateUserStreak
        (Map.empty(''u1'' \<mapsto>
          \<lparr> userId = ''u1'', currentStreak = 2, longestStreak = 2,
            lastLogDate = Some 90000000, isActive = True,
            currentStreakStartDate = Some 0, longestStreakStartDate = Some 0,
            longestStreakEndDate = Some 86400000 \<rparr>)) ''u1'' 86400000)) = True)
   \<and> (reachable (fst (updateUserStreak Map.empty ''u1'' 0)) \<and>
      isActive (fst (updateUserStreak Map.empty ''u1'' 0)))"
proof -
  have r: "reachable (fst (updateUserStreak Map.empty ''u1'' 0))"
    by (rule reachable.first_log) simp
  show ?thesis
    using r active_flag_after_update
      [where ?repo1.0 = Map.empty and ?uid1.0 = "''u1''" and ?d1.0 = 0
         and ?repo2.0 = "Map.empty(''u1'' \<mapsto> (entityDefaults ''u1'')\<lparr> isActive := False \<rparr>)"
         and ?uid2.0 = "''u1''" and ?d2.0 = 0
         and ?s2.0 = "(entityDefaults ''u1'')\<lparr> isActive := False \<rparr>"
         and ?repo3.0 = "Map.empty(''u1'' \<mapsto>
          \<lparr> userId = ''u1'', currentStreak = 2, longestStreak = 2,
            lastLogDate = Some 86400000, isActive = False,
            currentStreakStartDate = Some 0, longestStreakStartDate = Some 0,
            longestStreakEndDate = Some 86400000 \<rparr>)"
         and ?uid3.0 = "''u1''" and ?d3.0 = 176400000 and ?l3.0 = 86400000
         and ?s3.0 = "\<lparr> userId = ''u1'', currentStreak = 2, longestStreak = 2,
            lastLogDate = Some 86400000, isActive = False,
            currentStreakStartDate = Some 0, longestStreakStartDate = Some 0,
            longestStreakEndDate = Some 86400000 \<rparr>"
         and ?repo4.0 = "Map.empty(''u1'' \<mapsto>
          \<lparr> userId = ''u1'', currentStreak = 2, longestStreak = 2,
            lastLogDate = Some 90000000, isActive = True,
            currentStreakStartDate = Some 0, longestStreakStartDate = Some 0,
            longestStreakEndDate = Some 86400000 \<rparr>)"
         and ?uid4.0 = "''u1''" and ?d4.0 = 86400000 and ?l4.0 = 90000000
         and ?s4.0 = "\<lparr> userId = ''u1'', currentStreak = 2, longestStreak = 2,
            lastLogDate = Some 90000000, isActive = True,
            currentStreakStartDate = Some 0, longestStreakStartDate = Some 0,
            longestStreakEndDate = Some 86400000 \<rparr>"
         and t = "fst (updateUserStreak Map.empty ''u1'' 0)"]
    by (simp add: entityDefaults_def differenceInCalendarDays_def startOfDay_def msPerDay_def)
qed

text \<open>
  The claim as written fails on a second log of the same day: an inactive record stays
  inactive.
\<close>

theorem active_flag_counterexample:
  "\<not> isActive (fst (updateUserStreak
        (Map.empty(''u1'' \<mapsto>
          \<lparr> userId = ''u1'', currentStreak = 2, longestStreak = 2,
            lastLogDate = Some 86400000, isActive = False,
            currentStreakStartDate = Some 0, longestStreakStartDate = Some 0,
            longestStreakEndDate = Some 86400000 \<rparr>)) ''u1'' 90000000))"
  by (simp add: updateUserStreak_def Let_def differenceInCalendarDays_def
        startOfDay_def msPerDay_def)

section \<open>The invariant of the streak record\<close>

text \<open>
  C2, as the code has it. The record returned for a first log satisfies the invariant:
  the longest streak is at least the current streak, and the current streak starts no
  later than the last log date (by calendar day). The record returned for a found record
  satisfies it, and has longest streak at least 1, whenever the found record has longest
  streak at least 1 and at least its current streak and, if it has a last log date, a
  start of the current streak no later than it. Hence every record reachable from a
  first log satisfies the invariant.
\<close>

theorem streak_invariant_preserved:
  "(repo1 uid1 = None \<longrightarrow> streakInvariant (fst (updateUserStreak repo1 uid1 d1)))
   \<and> (repo2 uid2 = Some s \<and> 1 \<le> longestStreak s \<and> currentStreak s \<le> longestStreak s \<and>
        (lastLogDate s = None \<or> startNotAfterLast s) \<longrightarrow>
        streakInvariant (fst (updateUserStreak repo2 uid2 d2)) \<and>
        1 \<le> longestStreak (fst (updateUserStreak repo2 uid2 d2)))
   \<and> (reachable t \<longrightarrow> streakInvariant t)"
proof (intro conjI impI)
  assume "repo1 uid1 = None"
  then show "streakInvariant (fst (updateUserStreak repo1 uid1 d1))"
    by (rule invariant_absent)
next
  assume a: "repo2 uid2 = Some s \<and> 1 \<le> longestStreak s \<and> currentStreak s \<le> longestStreak s \<and>
        (lastLogDate s = None \<or> startNotAfterLast s)"
  then show "streakInvariant (fst (updateUserStreak repo2 uid2 d2))"
    using invariant_step [of repo2 uid2 s d2] by simp
  from a show "1 \<le> longestStreak (fst (updateUserStreak repo2 uid2 d2))"
    using invariant_step [of repo2 uid2 s d2] by simp
next
  assume "reachable t"
  then show "streakInvariant t" by (simp add: reachable_sound)
qed

theorem streak_invariant_preserved_witness:
  "streakInvariant (fst (updateUserStreak Map.empty ''u1'' 1000))
   \<and> (startNotAfterLast
        \<lparr> userId = ''u1'', currentStreak = 2, longestStreak = 2,
          lastLogDate = Some 86400000, isActive = True,
          currentStreakStartDate = Some 0, longestStreakStartDate = Some 0,
          longestStreakEndDate = Some 86400000 \<rparr> \<and>
      streakInvariant (fst (updateUserStreak
        (Map.empty(''u1'' \<mapsto>
          \<lparr> userId = ''u1'', currentStreak = 2, longestStreak = 2,
            lastLogDate = Some 86400000, isActive = True,
            currentStreakStartDate = Some 0, longestStreakStartDate = Some 0,
            longestStreakEndDate = Some 86400000 \<rparr>)) ''u1'' 176400000)))
   \<and> (reachable (fst (updateUserStreak Map.empty ''u1'' 1000)) \<and>
      streakInvariant (fst (updateUserStreak Map.empty ''u1'' 1000)))"
proof -
  have r: "reachable (fst (updateUserStreak Map.empty ''u1'' 1000))"
    by (rule reachable.first_log) simp
  show ?thesis
    using r streak_invariant_preserved
      [where ?repo1.0 = Map.empty and ?uid1.0 = "''u1''" and ?d1.0 = 1000
         and ?repo2.0 = "Map.empty(''u1'' \<mapsto>
          \<lparr> userId = ''u1'', currentStreak = 2, longestStreak = 2,
            lastLogDate = Some 86400000, isActive = True,
            currentStreakStartDate = Some 0, longestStreakStartDate = Some 0,
            longestStreakEndDate = Some 86400000 \<rparr>)"
         and ?uid2.0 = "''u1''" and ?d2.0 = 176400000
         and s = "\<lparr> userId = ''u1'', currentStreak = 2, longestStreak = 2,
            lastLogDate = Some 86400000, isActive = True,
            currentStreakStartDate = Some 0, longestStreakStartDate = Some 0,
            longestStreakEndDate = Some 86400000 \<rparr>"
         and t = "fst (updateUserStreak Map.empty ''u1'' 1000)"]
    by (simp add: startNotAfterLast_def startOfDay_def msPerDay_def)
qed

text \<open>
  The claim as written fails for a prior record that holds the column defaults of the
  entity: the update sets the current streak to 1 and leaves the longest streak 0.
\<close>

theorem streak_invariant_counterexample:
  "\<not> currentStreak (fst (updateUserStreak
         (Map.empty(''u1'' \<mapsto> entityDefaults ''u1'')) ''u1'' 1700000000000))
      \<le> longestStreak (fst (updateUserStreak
         (Map.empty(''u1'' \<mapsto> entityDefaults ''u1'')) ''u1'' 1700000000000))"
  by (simp add: updateUserStreak_def Let_def entityDefaults_def)

section \<open>Dictionaries of groups\<close>

lemma pushAll_Nil: "pushAll g [] = g"
  by (simp add: pushAll_def)

lemma pushAll_pushLog: "pushAll (pushLog g l) ls = pushAll g (l # ls)"
  by (simp add: pushAll_def pushLog_def)

lemma map_of_keyed:
  "distinct (map kf js) \<Longrightarrow> i \<in> set js \<Longrightarrow>
   map_of (map (\<lambda>j. (kf j, G j)) js) (kf i) = Some (G i)"
  by (induction js) (auto simp: image_iff)

lemma map_of_keyed_None:
  "x \<notin> kf ` set js \<Longrightarrow> map_of (map (\<lambda>j. (kf j, G j)) js) x = None"
  by (induction js) auto

lemma update_keyed:
  "distinct (map kf js) \<Longrightarrow> x \<in> kf ` set js \<Longrightarrow>
   AList.update x v (map (\<lambda>j. (kf j, G j)) js) =
     map (\<lambda>j. (kf j, if kf j = x then v else G j)) js"
proof (induction js)
  case Nil
  then show ?case by simp
next
  case (Cons a js)
  show ?case
  proof (cases "kf a = x")
    case True
    then have "x \<notin> kf ` set js" using Cons.prems(1) by auto
    then have "map (\<lambda>j. (kf j, if kf j = x then v else G j)) js = map (\<lambda>j. (kf j, G j)) js"
      by (intro map_cong) auto
    then show ?thesis using True by simp
  next
    case False
    then have "x \<in> kf ` set js" using Cons.prems(2) by auto
    then show ?thesis using False Cons by simp
  qed
qed

lemma init_keyed:
  "distinct (map kf js) \<Longrightarrow> kf ` set js \<inter> fst ` set al = {} \<Longrightarrow>
   foldl (\<lambda>obj j. AList.update (kf j) (G j) obj) al js = al @ map (\<lambda>j. (kf j, G j)) js"
proof (induction js arbitrary: al)
  case Nil
  then show ?case by simp
next
  case (Cons a js)
  have notin: "kf a \<notin> fst ` set al" using Cons.prems(2) by auto
  have upd: "AList.update (kf a) (G a) al = al @ [(kf a, G a)]"
    using notin by (induction al) auto
  have "kf ` set js \<inter> fst ` set (al @ [(kf a, G a)]) = {}"
    using Cons.prems by auto
  with Cons.IH [of "al @ [(kf a, G a)]"] Cons.prems(1) upd show ?case by simp
qed

lemma forEach_push:
  assumes step: "\<And>obj l. step obj l =
      (case map_of obj (key l) of
         None \<Rightarrow> Inl TypeError
       | Some g \<Rightarrow> Inr (AList.update (key l) (pushLog g l) obj))"
    and dist: "distinct (map kf js)"
    and keys: "\<forall>l \<in> set ls. key l \<in> kf ` set js"
  shows "forEach step ls (map (\<lambda>j. (kf j, G j)) js) =
     Inr (map (\<lambda>j. (kf j, pushAll (G j) (filter (\<lambda>l. key l = kf j) ls))) js)"
  using keys
proof (induction ls arbitrary: G)
  case Nil
  then show ?case by (simp add: pushAll_Nil)
next
  case (Cons l ls)
  from Cons.prems obtain i where i: "i \<in> set js" "key l = kf i" by auto
  let ?G' = "\<lambda>j. if kf j = key l then pushLog (G i) l else G j"
  have look: "map_of (map (\<lambda>j. (kf j, G j)) js) (key l) = Some (G i)"
    unfolding i(2) using dist i(1) by (rule map_of_keyed)
  have "key l \<in> kf ` set js" using i by auto
  with dist have upd: "AList.update (key l) (pushLog (G i) l) (map (\<lambda>j. (kf j, G j)) js) =
      map (\<lambda>j. (kf j, ?G' j)) js"
    by (rule update_keyed)
  have s: "step (map (\<lambda>j. (kf j, G j)) js) l = Inr (map (\<lambda>j. (kf j, ?G' j)) js)"
    unfolding step look using upd by simp
  have "forEach step ls (map (\<lambda>j. (kf j, ?G' j)) js) =
     Inr (map (\<lambda>j. (kf j, pushAll (?G' j) (filter (\<lambda>l. key l = kf j) ls))) js)"
    using Cons.prems by (intro Cons.IH) simp
  also have "map (\<lambda>j. (kf j, pushAll (?G' j) (filter (\<lambda>l. key l = kf j) ls))) js =
     map (\<lambda>j. (kf j, pushAll (G j) (filter (\<lambda>l. key l = kf j) (l # ls)))) js"
  proof (intro map_cong refl)
    fix j assume "j \<in> set js"
    have inj: "inj_on kf (set js)" using dist by (simp add: distinct_map)
    show "(kf j, pushAll (?G' j) (filter (\<lambda>l. key l = kf j) ls)) =
       (kf j, pushAll (G j) (filter (\<lambda>l. key l = kf j) (l # ls)))"
    proof (cases "kf j = key l")
      case True
      then have "kf j = kf i" by (simp only: i(2))
      with inj \<open>j \<in> set js\<close> i(1) have "j = i" by (blast dest: inj_onD)
      have "pushAll (pushLog (G i) l) (filter (\<lambda>l. key l = kf j) ls) =
            pushAll (G i) (l # filter (\<lambda>l. key l = kf j) ls)"
        by (rule pushAll_pushLog)
      then show ?thesis using True \<open>j = i\<close> by simp
    next
      case False
      then have "key l \<noteq> kf j" by (rule not_sym)
      then show ?thesis using False by simp
    qed
  qed
  finally show ?case using s by simp
qed

section \<open>Grouping by hour\<close>

lemma int_div_less_bound:
  fixes x m :: int
  assumes "x < k * m" "0 < m"
  shows "x div m < k"
proof (rule ccontr)
  assume "\<not> x div m < k"
  then have "k \<le> x div m" by simp
  then have "k * m \<le> (x div m) * m"
    using assms(2) by (simp add: mult_right_mono)
  also have "(x div m) * m \<le> x"
    using pos_mod_sign [OF assms(2), of x] div_mult_mod_eq [of x m] by linarith
  finally show False using assms(1) by simp
qed

lemma getHours_lt: "getHours t < 24"
proof -
  have "t mod msPerDay < 24 * msPerHour"
    using pos_mod_bound [of msPerDay t] by (simp add: msPerDay_def msPerHour_def)
  moreover have "0 < msPerHour" by (simp add: msPerHour_def)
  ultimately have "(t mod msPerDay) div msPerHour < 24"
    by (rule int_div_less_bound)
  then show ?thesis by (simp add: getHours_def)
qed

lemma getDay_lt: "getDay t < 7"
  by (simp add: getDay_def)

lemma objectValuesByIndex_sorted:
  "sorted js \<Longrightarrow> objectValuesByIndex (map (\<lambda>j. (j, G j)) js) = map G js"
proof -
  assume "sorted js"
  then have "sorted (map fst (map (\<lambda>j. (j, G j)) js))"
    by (simp add: comp_def)
  then have "sort_key fst (map (\<lambda>j. (j, G j)) js) = map (\<lambda>j. (j, G j)) js"
    by (rule sort_key_id_if_sorted)
  then show ?thesis by (simp add: objectValuesByIndex_def comp_def)
qed

lemma initHourGroups_eq:
  "initHourGroups = map (\<lambda>h. (h, \<lparr> count = 0, logs = [], hour = h \<rparr>)) [0..<24]"
  unfolding initHourGroups_def
  using init_keyed [where kf = "\<lambda>i. i" and js = "[0..<24]" and al = "[]"
      and G = "\<lambda>h. \<lparr> count = 0, logs = [], hour = h \<rparr>"]
  by simp

lemma groupLogsByHour_eq:
  "groupLogsByHour ls =
     Inr (map (\<lambda>h. \<lparr> count = length (filter (\<lambda>l. getHours (moodDate l) = h) ls),
                    logs = filter (\<lambda>l. getHours (moodDate l) = h) ls,
                    hour = h \<rparr>) [0..<24])"
proof -
  have step: "\<And>obj l. hourStep obj l =
      (case map_of obj (getHours (moodDate l)) of
         None \<Rightarrow> Inl TypeError
       | Some g \<Rightarrow> Inr (AList.update (getHours (moodDate l)) (pushLog g l) obj))"
    by (simp add: hourStep_def Let_def)
  have keys: "\<forall>l \<in> set ls. getHours (moodDate l) \<in> (\<lambda>i. i) ` set [0..<24]"
    by (simp add: getHours_lt)
  have "forEach hourStep ls initHourGroups =
     Inr (map (\<lambda>h. (h, pushAll \<lparr> count = 0, logs = [], hour = h \<rparr>
                         (filter (\<lambda>l. getHours (moodDate l) = h) ls))) [0..<24])"
    unfolding initHourGroups_eq
    by (rule forEach_push [where kf = "\<lambda>i. i", OF step _ keys]) simp
  then show ?thesis
    by (simp add: groupLogsByHour_def objectValuesByIndex_sorted pushAll_def)
qed

section \<open>Grouping by day of the week\<close>

lemma sort_key_fst_keyed:
  "sort_key fst (map (\<lambda>d. (d, R d)) ks) = map (\<lambda>d. (d, R d)) (sort ks)"
proof (induction ks)
  case Nil
  then show ?case by simp
next
  case (Cons k ks)
  have ins: "insort_key fst (k, R k) (map (\<lambda>d. (d, R d)) xs) =
             map (\<lambda>d. (d, R d)) (insort k xs)" for xs
    by (induction xs) auto
  show ?case using Cons by (simp add: ins)
qed

lemma rotation_sorted:
  assumes "s < 7"
  shows "sort (map (\<lambda>i. (s + i) mod 7) [0..<7]) = [0..<7]"
proof -
  have up: "[0..<7] = [0, 1, 2, 3, 4, 5, 6::nat]"
    by (simp add: upt_rec)
  from assms consider "s = 0" | "s = 1" | "s = 2" | "s = 3" | "s = 4" | "s = 5" | "s = 6"
    by linarith
  then show ?thesis
    by cases (simp_all add: up)
qed

lemma rotation_distinct:
  assumes "s < 7"
  shows "distinct (map (\<lambda>i. (s + i) mod 7) [0..<7])"
proof -
  have up: "[0..<7] = [0, 1, 2, 3, 4, 5, 6::nat]"
    by (simp add: upt_rec)
  from assms consider "s = 0" | "s = 1" | "s = 2" | "s = 3" | "s = 4" | "s = 5" | "s = 6"
    by linarith
  then show ?thesis
    by cases (simp_all add: up)
qed

lemma rotation_set:
  assumes "s < 7" "d < 7"
  shows "d \<in> (\<lambda>i. (s + i) mod 7) ` set [0..<7]"
proof -
  have "sort (map (\<lambda>i. (s + i) mod 7) [0..<7]) = [0..<7]"
    using assms(1) by (rule rotation_sorted)
  then have "set (map (\<lambda>i. (s + i) mod 7) [0..<7]) = set [0..<7]"
    by (metis set_sort)
  then show ?thesis using assms(2) by simp
qed

lemma initDayGroups_eq:
  "initDayGroups startDate =
     map (\<lambda>i. ((getDay startDate + i) mod 7,
               \<lparr> count = 0, logs = [], day = daysOfWeek ! ((getDay startDate + i) mod 7),
                 dayNumber = (getDay startDate + i) mod 7 \<rparr>)) [0..<7]"
proof -
  have "distinct (map (\<lambda>i. (getDay startDate + i) mod 7) [0..<7])"
    using getDay_lt by (rule rotation_distinct)
  then show ?thesis
    unfolding initDayGroups_def Let_def
    using init_keyed [where kf = "\<lambda>i. (getDay startDate + i) mod 7" and js = "[0..<7]"
        and al = "[]"
        and G = "\<lambda>i. \<lparr> count = 0, logs = [],
                       day = daysOfWeek ! ((getDay startDate + i) mod 7),
                       dayNumber = (getDay startDate + i) mod 7 \<rparr>"]
    by simp
qed

lemma groupLogsByDay_eq:
  "groupLogsByDay ls startDate =
     Inr (map (\<lambda>d. \<lparr> count = length (filter (\<lambda>l. getDay (moodDate l) = d) ls),
                    logs = filter (\<lambda>l. getDay (moodDate l) = d) ls,
                    day = daysOfWeek ! d, dayNumber = d \<rparr>) [0..<7])"
proof -
  define kf where "kf = (\<lambda>i. (getDay startDate + i) mod 7)"
  define R where "R = (\<lambda>d. pushAll \<lparr> count = 0, logs = [], day = daysOfWeek ! d, dayNumber = d \<rparr>
                          (filter (\<lambda>l. getDay (moodDate l) = d) ls))"
  have step: "\<And>obj l. dayStep obj l =
      (case map_of obj (getDay (moodDate l)) of
         None \<Rightarrow> Inl TypeError
       | Some g \<Rightarrow> Inr (AList.update (getDay (moodDate l)) (pushLog g l) obj))"
    by (simp add: dayStep_def Let_def)
  have dist: "distinct (map kf [0..<7])"
    unfolding kf_def using getDay_lt by (rule rotation_distinct)
  have keys: "\<forall>l \<in> set ls. getDay (moodDate l) \<in> kf ` set [0..<7]"
    unfolding kf_def using rotation_set [OF getDay_lt getDay_lt] by blast
  have init: "initDayGroups startDate =
      map (\<lambda>i. (kf i, \<lparr> count = 0, logs = [], day = daysOfWeek ! kf i, dayNumber = kf i \<rparr>))
        [0..<7]"
    unfolding kf_def by (rule initDayGroups_eq)
  have "forEach dayStep ls (initDayGroups startDate) =
     Inr (map (\<lambda>i. (kf i, pushAll \<lparr> count = 0, logs = [], day = daysOfWeek ! kf i,
                                   dayNumber = kf i \<rparr>
                          (filter (\<lambda>l. getDay (moodDate l) = kf i) ls))) [0..<7])"
    unfolding init by (rule forEach_push [OF step dist keys])
  also have "map (\<lambda>i. (kf i, pushAll \<lparr> count = 0, logs = [], day = daysOfWeek ! kf i,
                                   dayNumber = kf i \<rparr>
                          (filter (\<lambda>l. getDay (moodDate l) = kf i) ls))) [0..<7] =
     map (\<lambda>d. (d, R d)) (map kf [0..<7])"
    by (simp add: R_def comp_def)
  finally have fe: "forEach dayStep ls (initDayGroups startDate) =
     Inr (map (\<lambda>d. (d, R d)) (map kf [0..<7]))" .
  have srt: "sort (map kf [0..<7]) = [0..<7]"
    unfolding kf_def using getDay_lt by (rule rotation_sorted)
  have "sort_key fst (map (\<lambda>d. (d, R d)) (map kf [0..<7])) = map (\<lambda>d. (d, R d)) [0..<7]"
    by (simp only: sort_key_fst_keyed srt)
  then have vals: "objectValuesByIndex (map (\<lambda>d. (d, R d)) (map kf [0..<7])) = map R [0..<7]"
    by (simp only: objectValuesByIndex_def) (simp add: comp_def)
  have "map dayNumber (map R [0..<7]) = [0..<7]"
    by (simp add: R_def pushAll_def comp_def map_idI)
  then have "sorted (map dayNumber (map R [0..<7]))"
    by (simp only: sorted_upt)
  then have "sort_key dayNumber (map R [0..<7]) = map R [0..<7]"
    by (rule sort_key_id_if_sorted)
  then have "groupLogsByDay ls startDate = Inr (map R [0..<7])"
    unfolding groupLogsByDay_def fe by (simp only: vals sum.case)
  then show ?thesis by (simp add: R_def pushAll_def)
qed

section \<open>Grouping by date\<close>

lemma format_has_dash: "CHR ''-'' \<in> set (format_yyyy_MM_dd t)"
proof -
  obtain y m d where "civilFromDays (t div msPerDay) = (y, m, d)"
    by (cases "civilFromDays (t div msPerDay)") auto
  then show ?thesis by (simp add: format_yyyy_MM_dd_def)
qed

lemma format_not_inherited: "format_yyyy_MM_dd t \<notin> set objectPrototypeKeys"
proof
  assume "format_yyyy_MM_dd t \<in> set objectPrototypeKeys"
  moreover have "\<forall>k \<in> set objectPrototypeKeys. CHR ''-'' \<notin> set k"
    by (simp add: objectPrototypeKeys_def)
  ultimately show False using format_has_dash [of t] by blast
qed

lemma dateStep_eq:
  "dateStep obj l =
     (case map_of obj (format_yyyy_MM_dd (moodDate l)) of
        None \<Rightarrow> Inr obj
      | Some g \<Rightarrow> Inr (AList.update (format_yyyy_MM_dd (moodDate l)) (pushLog g l) obj))"
  using format_not_inherited [of "moodDate l"]
  by (simp add: dateStep_def getProperty_def Let_def split: option.splits)

lemma forEach_push_skip:
  assumes step: "\<And>obj l. step obj l =
      (case map_of obj (key l) of
         None \<Rightarrow> Inr obj
       | Some g \<Rightarrow> Inr (AList.update (key l) (pushLog g l) obj))"
    and dist: "distinct (map kf js)"
  shows "forEach step ls (map (\<lambda>j. (kf j, G j)) js) =
     Inr (map (\<lambda>j. (kf j, pushAll (G j) (filter (\<lambda>l. key l = kf j) ls))) js)"
proof (induction ls arbitrary: G)
  case Nil
  then show ?case by (simp add: pushAll_Nil)
next
  case (Cons l ls)
  show ?case
  proof (cases "key l \<in> kf ` set js")
    case False
    then have look: "map_of (map (\<lambda>j. (kf j, G j)) js) (key l) = None"
      by (rule map_of_keyed_None)
    have s: "step (map (\<lambda>j. (kf j, G j)) js) l = Inr (map (\<lambda>j. (kf j, G j)) js)"
      unfolding step look by simp
    have "map (\<lambda>j. (kf j, pushAll (G j) (filter (\<lambda>l. key l = kf j) ls))) js =
          map (\<lambda>j. (kf j, pushAll (G j) (filter (\<lambda>l. key l = kf j) (l # ls)))) js"
    proof (intro map_cong refl)
      fix j assume "j \<in> set js"
      then have "key l \<noteq> kf j" using False by blast
      then show "(kf j, pushAll (G j) (filter (\<lambda>l. key l = kf j) ls)) =
                 (kf j, pushAll (G j) (filter (\<lambda>l. key l = kf j) (l # ls)))"
        by simp
    qed
    then show ?thesis using s Cons.IH [of G] by simp
  next
    case True
    then obtain i where i: "i \<in> set js" "key l = kf i" by auto
    let ?G' = "\<lambda>j. if kf j = key l then pushLog (G i) l else G j"
    have look: "map_of (map (\<lambda>j. (kf j, G j)) js) (key l) = Some (G i)"
      unfolding i(2) using dist i(1) by (rule map_of_keyed)
    from dist True
    have upd: "AList.update (key l) (pushLog (G i) l) (map (\<lambda>j. (kf j, G j)) js) =
        map (\<lambda>j. (kf j, ?G' j)) js"
      by (rule update_keyed)
    have s: "step (map (\<lambda>j. (kf j, G j)) js) l = Inr (map (\<lambda>j. (kf j, ?G' j)) js)"
      unfolding step look using upd by simp
    have "forEach step ls (map (\<lambda>j. (kf j, ?G' j)) js) =
       Inr (map (\<lambda>j. (kf j, pushAll (?G' j) (filter (\<lambda>l. key l = kf j) ls))) js)"
      by (rule Cons.IH)
    also have "map (\<lambda>j. (kf j, pushAll (?G' j) (filter (\<lambda>l. key l = kf j) ls))) js =
       map (\<lambda>j. (kf j, pushAll (G j) (filter (\<lambda>l. key l = kf j) (l # ls)))) js"
    proof (intro map_cong refl)
      fix j assume "j \<in> set js"
      have inj: "inj_on kf (set js)" using dist by (simp add: distinct_map)
      show "(kf j, pushAll (?G' j) (filter (\<lambda>l. key l = kf j) ls)) =
         (kf j, pushAll (G j) (filter (\<lambda>l. key l = kf j) (l # ls)))"
      proof (cases "kf j = key l")
        case True
        then have "kf j = kf i" by (simp only: i(2))
        with inj \<open>j \<in> set js\<close> i(1) have "j = i" by (blast dest: inj_onD)
        have "pushAll (pushLog (G i) l) (filter (\<lambda>l. key l = kf j) ls) =
              pushAll (G i) (l # filter (\<lambda>l. key l = kf j) ls)"
          by (rule pushAll_pushLog)
        then show ?thesis using True \<open>j = i\<close> by simp
      next
        case False
        then have "key l \<noteq> kf j" by (rule not_sym)
        then show ?thesis using False by simp
      qed
    qed
    finally show ?thesis using s by simp
  qed
qed

lemma addDays_mono: "i \<le> j \<Longrightarrow> addDays s i \<le> addDays s j"
  by (simp add: addDays_def msPerDay_def)

lemma diff_addDays: "differenceInCalendarDays (addDays s i) s = int i"
proof -
  have "(s + int i * msPerDay) div msPerDay = s div msPerDay + int i"
    by (simp add: msPerDay_def)
  then show ?thesis by (simp add: diff_days addDays_def)
qed

lemma groupLogsByDate_eq:
  assumes dist: "distinct (map (\<lambda>i. format_yyyy_MM_dd (addDays s i)) [0..<numDays s e])"
  shows "groupLogsByDate ls s e =
     Inr (map (\<lambda>i. \<lparr> count = length (filter (\<lambda>l. format_yyyy_MM_dd (moodDate l) =
                                                 format_yyyy_MM_dd (addDays s i)) ls),
                    logs = filter (\<lambda>l. format_yyyy_MM_dd (moodDate l) =
                                        format_yyyy_MM_dd (addDays s i)) ls,
                    date = format_yyyy_MM_dd (addDays s i),
                    dateObj = addDays s i \<rparr>) [0..<numDays s e])"
proof -
  define kf where "kf = (\<lambda>i. format_yyyy_MM_dd (addDays s i))"
  define G where "G = (\<lambda>i. \<lparr> count = 0, logs = [], date = kf i, dateObj = addDays s i \<rparr>)"
  define R where "R = (\<lambda>i. pushAll (G i) (filter (\<lambda>l. format_yyyy_MM_dd (moodDate l) = kf i) ls))"
  have dist': "distinct (map kf [0..<numDays s e])"
    unfolding kf_def by (rule dist)
  have "foldl (\<lambda>obj j. AList.update (kf j) (G j) obj) [] [0..<numDays s e] =
        [] @ map (\<lambda>j. (kf j, G j)) [0..<numDays s e]"
    using dist' by (rule init_keyed) simp
  then have init: "initDateGroups s e = map (\<lambda>j. (kf j, G j)) [0..<numDays s e]"
    by (simp add: initDateGroups_def Let_def kf_def G_def)
  have fe: "forEach dateStep ls (initDateGroups s e) =
      Inr (map (\<lambda>j. (kf j, R j)) [0..<numDays s e])"
    unfolding init R_def by (rule forEach_push_skip [OF dateStep_eq dist'])
  have "map dateObj (map R [0..<numDays s e]) = map (addDays s) [0..<numDays s e]"
    by (simp add: R_def G_def pushAll_def comp_def)
  moreover have "sorted (map (addDays s) [0..<numDays s e])"
    by (simp add: sorted_map sorted_wrt_iff_nth_less addDays_mono)
  ultimately have "sorted (map dateObj (map R [0..<numDays s e]))" by (simp only:)
  then have "sort_key dateObj (map R [0..<numDays s e]) = map R [0..<numDays s e]"
    by (rule sort_key_id_if_sorted)
  moreover have "map snd (map (\<lambda>j. (kf j, R j)) [0..<numDays s e]) = map R [0..<numDays s e]"
    by (simp add: comp_def)
  ultimately have "groupLogsByDate ls s e = Inr (map R [0..<numDays s e])"
    unfolding groupLogsByDate_def fe by (simp only: sum.case)
  then show ?thesis by (simp add: R_def G_def kf_def pushAll_def)
qed

section \<open>The calendar\<close>

lemma div_lower:
  fixes a c q :: int
  assumes "q = a div c" and "0 < c"
  shows "c * q \<le> a"
  unfolding assms(1)
  using pos_mod_sign [OF assms(2), of a] mult_div_mod_eq [of c a] by linarith

lemma div_upper:
  fixes a c q :: int
  assumes "q = a div c" and "0 < c"
  shows "a < c * q + c"
  unfolding assms(1)
  using pos_mod_bound [OF assms(2), of a] mult_div_mod_eq [of c a] by linarith

lemma DayFromYear_alt:
  "DayFromYear y =
     365 * y - 719050 + (y - 1969) div 4 - (y - 1901) div 100 + (y - 1601) div 400"
  by (simp add: DayFromYear_def)

text \<open>The first days of two different years are at least 363 days apart.\<close>

lemma DayFromYear_gap:
  assumes "y1 < y2"
  shows "DayFromYear y1 + 363 \<le> DayFromYear y2"
proof -
  define a1 where "a1 = (y1 - 1969) div 4"
  define b1 where "b1 = (y1 - 1901) div 100"
  define c1 where "c1 = (y1 - 1601) div 400"
  define a2 where "a2 = (y2 - 1969) div 4"
  define b2 where "b2 = (y2 - 1901) div 100"
  define c2 where "c2 = (y2 - 1601) div 400"
  have "4 * a1 \<le> y1 - 1969" by (rule div_lower [OF a1_def]) simp
  moreover have "y2 - 1969 < 4 * a2 + 4" by (rule div_upper [OF a2_def]) simp
  moreover have "y1 - 1901 < 100 * b1 + 100" by (rule div_upper [OF b1_def]) simp
  moreover have "100 * b2 \<le> y2 - 1901" by (rule div_lower [OF b2_def]) simp
  moreover have "400 * c1 \<le> y1 - 1601" by (rule div_lower [OF c1_def]) simp
  moreover have "y2 - 1601 < 400 * c2 + 400" by (rule div_upper [OF c2_def]) simp
  ultimately have "365 * y1 - 719050 + a1 - b1 + c1 + 363 \<le> 365 * y2 - 719050 + a2 - b2 + c2"
    using assms by linarith
  then show ?thesis
    by (simp only: DayFromYear_alt a1_def b1_def c1_def a2_def b2_def c2_def)
qed

text \<open>The estimate of the year is at most one year off.\<close>

lemma estimate_lower:
  "DayFromYear (1970 + (400 * z) div 146097 - 1) \<le> z"
proof -
  define k where "k = (400 * z) div 146097"
  define y where "y = 1970 + k - 1"
  define a where "a = (y - 1969) div 4"
  define b where "b = (y - 1901) div 100"
  define c where "c = (y - 1601) div 400"
  have "146097 * k \<le> 400 * z" by (rule div_lower [OF k_def]) simp
  moreover have "4 * a \<le> y - 1969" by (rule div_lower [OF a_def]) simp
  moreover have "y - 1901 < 100 * b + 100" by (rule div_upper [OF b_def]) simp
  moreover have "400 * c \<le> y - 1601" by (rule div_lower [OF c_def]) simp
  moreover have "y = k + 1969" by (simp add: y_def)
  ultimately have "365 * y - 719050 + a - b + c \<le> z"
    by linarith
  then have "DayFromYear y \<le> z"
    by (simp only: DayFromYear_alt a_def b_def c_def)
  then show ?thesis by (simp only: y_def k_def)
qed

lemma estimate_upper:
  "z < DayFromYear (1970 + (400 * z) div 146097 + 2)"
proof -
  define k where "k = (400 * z) div 146097"
  define y where "y = 1970 + k + 2"
  define a where "a = (y - 1969) div 4"
  define b where "b = (y - 1901) div 100"
  define c where "c = (y - 1601) div 400"
  have "400 * z < 146097 * k + 146097" by (rule div_upper [OF k_def]) simp
  moreover have "y - 1969 < 4 * a + 4" by (rule div_upper [OF a_def]) simp
  moreover have "100 * b \<le> y - 1901" by (rule div_lower [OF b_def]) simp
  moreover have "y - 1601 < 400 * c + 400" by (rule div_upper [OF c_def]) simp
  moreover have "y = k + 1972" by (simp add: y_def)
  ultimately have "z < 365 * y - 719050 + a - b + c"
    by linarith
  then have "z < DayFromYear y"
    by (simp only: DayFromYear_alt a_def b_def c_def)
  then show ?thesis by (simp only: y_def k_def)
qed

text \<open>\<open>YearFromDay\<close> is the year in which the day lies.\<close>

lemma YearFromDay_bounds:
  "DayFromYear (YearFromDay z) \<le> z \<and> z < DayFromYear (YearFromDay z + 1)"
proof -
  define y where "y = 1970 + (400 * z) div 146097"
  have lo: "DayFromYear (y - 1) \<le> z"
    unfolding y_def by (rule estimate_lower)
  have hi: "z < DayFromYear (y + 2)"
    unfolding y_def by (rule estimate_upper)
  have eq: "YearFromDay z =
      (if DayFromYear (y + 1) \<le> z then y + 1 else if z < DayFromYear y then y - 1 else y)"
    by (simp add: YearFromDay_def y_def Let_def)
  show ?thesis
  proof (cases "DayFromYear (y + 1) \<le> z")
    case True
    then have "YearFromDay z = y + 1" by (simp add: eq)
    then show ?thesis using True hi by (simp add: add.commute)
  next
    case False
    show ?thesis
    proof (cases "z < DayFromYear y")
      case True
      then have "YearFromDay z = y - 1" using False by (simp add: eq)
      then show ?thesis using True lo by simp
    next
      case ge: False
      then have "YearFromDay z = y" using False by (simp add: eq)
      then show ?thesis using False ge by simp
    qed
  qed
qed

lemma InLeapYear_range: "InLeapYear y = 0 \<or> InLeapYear y = 1"
  by (simp add: InLeapYear_def)

lemma monthAndDate_inverse:
  assumes "monthAndDate w l = (m, d)"
  shows "w = monthStart l m + d - 1" and "1 \<le> m" and "m \<le> 12"
  using assms
  by (auto simp: monthAndDate_def monthStart_def split: if_splits)

lemma monthAndDate_date_pos:
  assumes "monthAndDate w l = (m, d)" and "0 \<le> w"
  shows "1 \<le> d"
  using assms
  by (auto simp: monthAndDate_def split: if_splits)

lemma monthStart_leap:
  assumes "l1 = 0 \<or> l1 = 1" and "l2 = 0 \<or> l2 = 1"
  shows "monthStart l1 m \<le> monthStart l2 m + 1"
  using assms by (auto simp: monthStart_def)

lemma civil_of_day:
  assumes "civilFromDays z = (y, m, d)"
  shows "z = DayFromYear y + monthStart (InLeapYear y) m + d - 1"
    and "1 \<le> m" and "1 \<le> d"
proof -
  obtain m' d' where md: "monthAndDate (z - DayFromYear (YearFromDay z))
      (InLeapYear (YearFromDay z)) = (m', d')"
    by (cases "monthAndDate (z - DayFromYear (YearFromDay z)) (InLeapYear (YearFromDay z))")
  with assms have eq: "y = YearFromDay z" "m = m'" "d = d'"
    by (simp_all add: civilFromDays_def Let_def)
  have w: "0 \<le> z - DayFromYear (YearFromDay z)"
    using YearFromDay_bounds [of z] by simp
  from monthAndDate_inverse(1) [OF md]
  show "z = DayFromYear y + monthStart (InLeapYear y) m + d - 1"
    unfolding eq by linarith
  from monthAndDate_inverse(2) [OF md] show "1 \<le> m" unfolding eq .
  from monthAndDate_date_pos [OF md w] show "1 \<le> d" unfolding eq .
qed

text \<open>
  Two days with the same month and day of the month are the same day or lie in different
  years, at least 362 days apart.
\<close>

lemma same_month_and_date:
  assumes "civilFromDays z1 = (y1, m, d)" and "civilFromDays z2 = (y2, m, d)"
  shows "z1 = z2 \<or> z1 + 362 \<le> z2 \<or> z2 + 362 \<le> z1"
proof -
  have e1: "z1 = DayFromYear y1 + monthStart (InLeapYear y1) m + d - 1"
    using assms(1) by (rule civil_of_day)
  have e2: "z2 = DayFromYear y2 + monthStart (InLeapYear y2) m + d - 1"
    using assms(2) by (rule civil_of_day)
  have l12: "monthStart (InLeapYear y1) m \<le> monthStart (InLeapYear y2) m + 1"
    using InLeapYear_range InLeapYear_range by (rule monthStart_leap)
  have l21: "monthStart (InLeapYear y2) m \<le> monthStart (InLeapYear y1) m + 1"
    using InLeapYear_range InLeapYear_range by (rule monthStart_leap)
  consider "y1 = y2" | "y1 < y2" | "y2 < y1" by linarith
  then show ?thesis
  proof cases
    case 1
    then show ?thesis using e1 e2 by simp
  next
    case 2
    then have "DayFromYear y1 + 363 \<le> DayFromYear y2" by (rule DayFromYear_gap)
    then have "z1 + 362 \<le> z2" using e1 e2 l12 by linarith
    then show ?thesis by simp
  next
    case 3
    then have "DayFromYear y2 + 363 \<le> DayFromYear y1" by (rule DayFromYear_gap)
    then have "z2 + 362 \<le> z1" using e1 e2 l21 by linarith
    then show ?thesis by simp
  qed
qed

section \<open>Date strings\<close>

lemma digit_nth_mem: "n < 10 \<Longrightarrow> ''0123456789'' ! n \<in> set ''0123456789''"
  by (rule nth_mem) simp

lemma decimal_digits: "c \<in> set (decimal n) \<Longrightarrow> c \<in> set ''0123456789''"
proof (induction n arbitrary: c rule: decimal.induct)
  case (1 n)
  show ?case
  proof (cases "n < 10")
    case True
    then have "decimal n = [''0123456789'' ! n]"
      by (subst decimal.simps) simp
    then have "c = ''0123456789'' ! n"
      using "1.prems" by (simp only: list.set insert_iff empty_iff simp_thms)
    with digit_nth_mem [OF True] show ?thesis by (simp only:)
  next
    case False
    then have eq: "decimal n = decimal (n div 10) @ [''0123456789'' ! (n mod 10)]"
      by (subst decimal.simps) simp
    have "n mod 10 < 10" by simp
    then have last: "''0123456789'' ! (n mod 10) \<in> set ''0123456789''"
      by (rule digit_nth_mem)
    have "c \<in> set (decimal (n div 10)) \<or> c = ''0123456789'' ! (n mod 10)"
      using "1.prems" unfolding eq
      by (simp only: set_append list.set Un_iff insert_iff empty_iff simp_thms)
    then show ?thesis
    proof
      assume "c \<in> set (decimal (n div 10))"
      with False show ?thesis by (rule "1.IH")
    next
      assume "c = ''0123456789'' ! (n mod 10)"
      with last show ?thesis by (simp only:)
    qed
  qed
qed

lemma digitValue_nth: "n < 10 \<Longrightarrow> digitValue (''0123456789'' ! n) = n"
proof -
  assume n: "n < 10"
  show ?thesis
  proof (cases "n < 5")
    case True
    then consider "n = 0" | "n = 1" | "n = 2" | "n = 3" | "n = 4"
      by linarith
    then show ?thesis
      by cases (simp_all add: digitValue_def)
  next
    case False
    with n consider "n = 5" | "n = 6" | "n = 7" | "n = 8" | "n = 9"
      by linarith
    then show ?thesis
      by cases (simp_all add: digitValue_def)
  qed
qed

lemma parseNat_snoc: "parseNat (s @ [c]) = 10 * parseNat s + digitValue c"
  by (simp add: parseNat_def)

lemma parseNat_decimal: "parseNat (decimal n) = n"
proof (induction n rule: decimal.induct)
  case (1 n)
  show ?case
  proof (cases "n < 10")
    case True
    then have "decimal n = [''0123456789'' ! n]"
      by (subst decimal.simps) simp
    then have "parseNat (decimal n) = digitValue (''0123456789'' ! n)"
      by (simp add: parseNat_def)
    then show ?thesis using True by (simp only: digitValue_nth)
  next
    case False
    then have eq: "decimal n = decimal (n div 10) @ [''0123456789'' ! (n mod 10)]"
      by (subst decimal.simps) simp
    have "n mod 10 < 10" by simp
    then have "digitValue (''0123456789'' ! (n mod 10)) = n mod 10"
      by (rule digitValue_nth)
    then have "parseNat (decimal n) = 10 * (n div 10) + n mod 10"
      unfolding eq parseNat_snoc using "1.IH" [OF False] by (simp only:)
    then show ?thesis by simp
  qed
qed

lemma parseNat_zeros: "parseNat (replicate k (CHR ''0'') @ s) = parseNat s"
  by (induction k) (simp_all add: parseNat_def digitValue_def)

lemma parseNat_addLeadingZeros: "parseNat (addLeadingZeros n k) = n"
  by (simp only: addLeadingZeros_def parseNat_zeros parseNat_decimal)

lemma addLeadingZeros_no_dash: "CHR ''-'' \<notin> set (addLeadingZeros n k)"
proof
  assume "CHR ''-'' \<in> set (addLeadingZeros n k)"
  then have "CHR ''-'' \<in> set (decimal n)"
    by (auto simp: addLeadingZeros_def)
  then have "CHR ''-'' \<in> set ''0123456789''" by (rule decimal_digits)
  then show False by simp
qed

lemma takeWhile_before:
  "x \<notin> set a \<Longrightarrow> takeWhile (\<lambda>c. c \<noteq> x) (a @ x # b) = a"
  by (induction a) auto

lemma split_at_dash:
  assumes "a @ CHR ''-'' # b = a' @ CHR ''-'' # b'"
    and "CHR ''-'' \<notin> set a" and "CHR ''-'' \<notin> set a'"
  shows "a = a'" and "b = b'"
proof -
  have "takeWhile (\<lambda>c. c \<noteq> CHR ''-'') (a @ CHR ''-'' # b) = a"
    using assms(2) by (rule takeWhile_before)
  moreover have "takeWhile (\<lambda>c. c \<noteq> CHR ''-'') (a' @ CHR ''-'' # b') = a'"
    using assms(3) by (rule takeWhile_before)
  ultimately show "a = a'" using assms(1) by (simp only:)
  then show "b = b'" using assms(1) by simp
qed

lemma format_parts:
  assumes "civilFromDays (t div msPerDay) = (y, m, d)"
  shows "format_yyyy_MM_dd t =
     addLeadingZeros (nat (if y > 0 then y else 1 - y)) 4 @
       CHR ''-'' # (addLeadingZeros (nat m) 2 @ CHR ''-'' # addLeadingZeros (nat d) 2)"
  using assms by (simp add: format_yyyy_MM_dd_def)

text \<open>Equal date strings have the same month and the same day of the month.\<close>

lemma format_month_date:
  assumes eq: "format_yyyy_MM_dd t1 = format_yyyy_MM_dd t2"
    and c1: "civilFromDays (t1 div msPerDay) = (y1, m1, d1)"
    and c2: "civilFromDays (t2 div msPerDay) = (y2, m2, d2)"
  shows "m1 = m2" and "d1 = d2"
proof -
  let ?Y1 = "addLeadingZeros (nat (if y1 > 0 then y1 else 1 - y1)) 4"
  let ?Y2 = "addLeadingZeros (nat (if y2 > 0 then y2 else 1 - y2)) 4"
  have "?Y1 @ CHR ''-'' # (addLeadingZeros (nat m1) 2 @ CHR ''-'' # addLeadingZeros (nat d1) 2) =
        ?Y2 @ CHR ''-'' # (addLeadingZeros (nat m2) 2 @ CHR ''-'' # addLeadingZeros (nat d2) 2)"
    using eq by (simp only: format_parts [OF c1] format_parts [OF c2])
  then have "addLeadingZeros (nat m1) 2 @ CHR ''-'' # addLeadingZeros (nat d1) 2 =
             addLeadingZeros (nat m2) 2 @ CHR ''-'' # addLeadingZeros (nat d2) 2"
    using addLeadingZeros_no_dash addLeadingZeros_no_dash by (rule split_at_dash(2))
  then have "addLeadingZeros (nat m1) 2 = addLeadingZeros (nat m2) 2"
    and "addLeadingZeros (nat d1) 2 = addLeadingZeros (nat d2) 2"
    using addLeadingZeros_no_dash addLeadingZeros_no_dash by (rule split_at_dash)+
  then have "parseNat (addLeadingZeros (nat m1) 2) = parseNat (addLeadingZeros (nat m2) 2)"
    and "parseNat (addLeadingZeros (nat d1) 2) = parseNat (addLeadingZeros (nat d2) 2)"
    by (simp_all only:)
  then have n: "nat m1 = nat m2" "nat d1 = nat d2"
    by (simp_all only: parseNat_addLeadingZeros)
  have "1 \<le> m1" "1 \<le> m2" "1 \<le> d1" "1 \<le> d2"
    using civil_of_day(2,3) [OF c1] civil_of_day(2,3) [OF c2] by simp_all
  with n show "m1 = m2" and "d1 = d2" by linarith+
qed

text \<open>
  Two dates with the same date string are on the same day or at least 362 days apart.
\<close>

lemma format_same_day:
  assumes "format_yyyy_MM_dd t1 = format_yyyy_MM_dd t2"
  shows "t1 div msPerDay = t2 div msPerDay
         \<or> t1 div msPerDay + 362 \<le> t2 div msPerDay
         \<or> t2 div msPerDay + 362 \<le> t1 div msPerDay"
proof -
  obtain y1 m1 d1 where c1: "civilFromDays (t1 div msPerDay) = (y1, m1, d1)"
    by (cases "civilFromDays (t1 div msPerDay)") auto
  obtain y2 m2 d2 where c2: "civilFromDays (t2 div msPerDay) = (y2, m2, d2)"
    by (cases "civilFromDays (t2 div msPerDay)") auto
  from format_month_date [OF assms c1 c2] have "m1 = m2" "d1 = d2" .
  with c2 have "civilFromDays (t2 div msPerDay) = (y2, m1, d1)" by simp
  with c1 show ?thesis by (rule same_month_and_date)
qed

lemma addDays_day: "addDays s i div msPerDay = s div msPerDay + int i"
  by (simp add: addDays_def msPerDay_def)

text \<open>In a window of at most 361 days all date strings are different.\<close>

lemma window_keys_distinct:
  assumes "differenceInCalendarDays e s \<le> 360"
  shows "distinct (map (\<lambda>i. format_yyyy_MM_dd (addDays s i)) [0..<numDays s e])"
proof -
  have n: "numDays s e \<le> 361"
    using assms by (simp add: numDays_def)
  have "inj_on (\<lambda>i. format_yyyy_MM_dd (addDays s i)) (set [0..<numDays s e])"
  proof (rule inj_onI)
    fix i j
    assume i: "i \<in> set [0..<numDays s e]" and j: "j \<in> set [0..<numDays s e]"
      and eq: "format_yyyy_MM_dd (addDays s i) = format_yyyy_MM_dd (addDays s j)"
    from i j n have ij: "i \<le> 360" "j \<le> 360" by auto
    from format_same_day [OF eq]
    have "s div msPerDay + int i = s div msPerDay + int j
          \<or> s div msPerDay + int i + 362 \<le> s div msPerDay + int j
          \<or> s div msPerDay + int j + 362 \<le> s div msPerDay + int i"
      by (simp only: addDays_day)
    with ij show "i = j" by linarith
  qed
  then show ?thesis by (simp add: distinct_map)
qed

lemma upt_7: "[0..<7] = [0, 1, 2, 3, 4, 5, 6::nat]"
  by (simp add: upt_rec)

lemma last_day_of_window:
  assumes "0 \<le> differenceInCalendarDays e s"
  shows "differenceInCalendarDays (addDays s (numDays s e - 1)) e = 0"
proof -
  have "int (numDays s e - 1) = differenceInCalendarDays e s"
    using assms by (simp add: numDays_def)
  then have "differenceInCalendarDays (addDays s (numDays s e - 1)) s =
      differenceInCalendarDays e s"
    by (simp only: diff_addDays)
  then show ?thesis by (simp add: diff_days)
qed

section \<open>The week view\<close>

text \<open>
  C3, as the code has it. For every list of logs and every start date, the week view
  returns seven groups, one for each weekday name, present also when empty, each holding
  the logs whose mood date falls on that weekday, whatever their calendar date. The groups
  come in the order of the weekday number, Sunday (0) first and Saturday (6) last,
  whatever the weekday of the start date.
\<close>

theorem week_buckets_in_weekday_order:
  "\<exists>gs. groupLogsByDay ls startDate = Inr gs \<and> length gs = 7 \<and>
        map dayNumber gs = [0, 1, 2, 3, 4, 5, 6] \<and>
        map day gs = [''Sunday'', ''Monday'', ''Tuesday'', ''Wednesday'', ''Thursday'',
                      ''Friday'', ''Saturday''] \<and>
        gs = map (\<lambda>d. \<lparr> count = length (filter (\<lambda>l. getDay (moodDate l) = d) ls),
                         logs = filter (\<lambda>l. getDay (moodDate l) = d) ls,
                         day = daysOfWeek ! d, dayNumber = d \<rparr>) [0..<7]"
  by (simp add: groupLogsByDay_eq) (simp add: upt_7 daysOfWeek_def)

text \<open>
  The claim as written fails on the order: for a window that starts on a Monday the first
  group is Sunday, since the groups are sorted by \<open>dayNumber\<close>.
\<close>

theorem week_buckets_counterexample:
  "getDay 1699833600000 = 1 \<and>
   groupLogsByDay [] 1699833600000 =
     Inr [\<lparr> count = 0, logs = [], day = ''Sunday'', dayNumber = 0 \<rparr>,
          \<lparr> count = 0, logs = [], day = ''Monday'', dayNumber = 1 \<rparr>,
          \<lparr> count = 0, logs = [], day = ''Tuesday'', dayNumber = 2 \<rparr>,
          \<lparr> count = 0, logs = [], day = ''Wednesday'', dayNumber = 3 \<rparr>,
          \<lparr> count = 0, logs = [], day = ''Thursday'', dayNumber = 4 \<rparr>,
          \<lparr> count = 0, logs = [], day = ''Friday'', dayNumber = 5 \<rparr>,
          \<lparr> count = 0, logs = [], day = ''Saturday'', dayNumber = 6 \<rparr>]"
proof
  show "getDay 1699833600000 = 1"
    by (simp add: getDay_def msPerDay_def)
  show "groupLogsByDay [] 1699833600000 =
     Inr [\<lparr> count = 0, logs = [], day = ''Sunday'', dayNumber = 0 \<rparr>,
          \<lparr> count = 0, logs = [], day = ''Monday'', dayNumber = 1 \<rparr>,
          \<lparr> count = 0, logs = [], day = ''Tuesday'', dayNumber = 2 \<rparr>,
          \<lparr> count = 0, logs = [], day = ''Wednesday'', dayNumber = 3 \<rparr>,
          \<lparr> count = 0, logs = [], day = ''Thursday'', dayNumber = 4 \<rparr>,
          \<lparr> count = 0, logs = [], day = ''Friday'', dayNumber = 5 \<rparr>,
          \<lparr> count = 0, logs = [], day = ''Saturday'', dayNumber = 6 \<rparr>]"
    by (simp add: groupLogsByDay_eq) (simp add: upt_7 daysOfWeek_def)
qed

section \<open>The day view and the month view\<close>

text \<open>
  C8. For every list of logs the day view returns 24 groups, for the hours 0 to 23 in
  ascending order, each hour present, with the logs of that hour and their number (so 0
  and the empty list when no log has that hour). For every window whose end date is on
  the day of its start date or up to 360 days later, as every month window is, the month
  view returns as many groups as the difference of the two dates in calendar days plus
  one: one for each calendar day from the start date to the end date, keyed by its date
  string, the keys pairwise different, in ascending order of date, present also when no
  log matches.
\<close>

theorem day_and_month_buckets:
  "(\<exists>gs. groupLogsByHour ls = Inr gs \<and> length gs = 24 \<and> map hour gs = [0..<24] \<and>
         gs = map (\<lambda>h. \<lparr> count = length (filter (\<lambda>l. getHours (moodDate l) = h) ls),
                          logs = filter (\<lambda>l. getHours (moodDate l) = h) ls,
                          hour = h \<rparr>) [0..<24])
   \<and> (0 \<le> differenceInCalendarDays e s \<and> differenceInCalendarDays e s \<le> 360 \<longrightarrow>
      (\<exists>gs. groupLogsByDate ls' s e = Inr gs \<and>
            int (length gs) = differenceInCalendarDays e s + 1 \<and>
            map date gs = map (\<lambda>i. format_yyyy_MM_dd (addDays s i)) [0..<numDays s e] \<and>
            distinct (map date gs) \<and>
            map dateObj gs = map (addDays s) [0..<numDays s e] \<and>
            gs = map (\<lambda>i. \<lparr> count = length (filter (\<lambda>l. format_yyyy_MM_dd (moodDate l) =
                                                format_yyyy_MM_dd (addDays s i)) ls'),
                             logs = filter (\<lambda>l. format_yyyy_MM_dd (moodDate l) =
                                                format_yyyy_MM_dd (addDays s i)) ls',
                             date = format_yyyy_MM_dd (addDays s i),
                             dateObj = addDays s i \<rparr>) [0..<numDays s e])
      \<and> (\<forall>i < numDays s e. differenceInCalendarDays (addDays s i) s = int i)
      \<and> differenceInCalendarDays (addDays s (numDays s e - 1)) e = 0)"
proof (intro conjI impI)
  show "\<exists>gs. groupLogsByHour ls = Inr gs \<and> length gs = 24 \<and> map hour gs = [0..<24] \<and>
         gs = map (\<lambda>h. \<lparr> count = length (filter (\<lambda>l. getHours (moodDate l) = h) ls),
                          logs = filter (\<lambda>l. getHours (moodDate l) = h) ls,
                          hour = h \<rparr>) [0..<24]"
    by (simp add: groupLogsByHour_eq comp_def map_idI)
next
  assume a: "0 \<le> differenceInCalendarDays e s \<and> differenceInCalendarDays e s \<le> 360"
  then have n: "int (numDays s e) = differenceInCalendarDays e s + 1"
    by (simp add: numDays_def)
  from a have dist: "distinct (map (\<lambda>i. format_yyyy_MM_dd (addDays s i)) [0..<numDays s e])"
    by (intro window_keys_distinct) simp
  then have eq: "groupLogsByDate ls' s e =
     Inr (map (\<lambda>i. \<lparr> count = length (filter (\<lambda>l. format_yyyy_MM_dd (moodDate l) =
                                                 format_yyyy_MM_dd (addDays s i)) ls'),
                    logs = filter (\<lambda>l. format_yyyy_MM_dd (moodDate l) =
                                        format_yyyy_MM_dd (addDays s i)) ls',
                    date = format_yyyy_MM_dd (addDays s i),
                    dateObj = addDays s i \<rparr>) [0..<numDays s e])"
    by (rule groupLogsByDate_eq)
  show "\<exists>gs. groupLogsByDate ls' s e = Inr gs \<and>
            int (length gs) = differenceInCalendarDays e s + 1 \<and>
            map date gs = map (\<lambda>i. format_yyyy_MM_dd (addDays s i)) [0..<numDays s e] \<and>
            distinct (map date gs) \<and>
            map dateObj gs = map (addDays s) [0..<numDays s e] \<and>
            gs = map (\<lambda>i. \<lparr> count = length (filter (\<lambda>l. format_yyyy_MM_dd (moodDate l) =
                                                format_yyyy_MM_dd (addDays s i)) ls'),
                             logs = filter (\<lambda>l. format_yyyy_MM_dd (moodDate l) =
                                                format_yyyy_MM_dd (addDays s i)) ls',
                             date = format_yyyy_MM_dd (addDays s i),
                             dateObj = addDays s i \<rparr>) [0..<numDays s e]"
    unfolding eq using n dist by (simp add: comp_def)
  show "\<forall>i < numDays s e. differenceInCalendarDays (addDays s i) s = int i"
    by (simp add: diff_addDays)
  show "differenceInCalendarDays (addDays s (numDays s e - 1)) e = 0"
    using a by (intro last_day_of_window) simp
qed

text \<open>Evaluating the date formatter on given dates.\<close>

lemma format_civil:
  assumes "civilFromDays (t div msPerDay) = (y, m, d)" and "0 < y"
  shows "format_yyyy_MM_dd t =
     addLeadingZeros (nat y) 4 @ ''-'' @ addLeadingZeros (nat m) 2 @ ''-'' @
     addLeadingZeros (nat d) 2"
  using assms by (simp add: format_yyyy_MM_dd_def)

lemma format_addDays:
  assumes "s div msPerDay + int i = z"
    and "civilFromDays z = (y, m, d)" and "0 < y"
  shows "format_yyyy_MM_dd (addDays s i) =
     addLeadingZeros (nat y) 4 @ ''-'' @ addLeadingZeros (nat m) 2 @ ''-'' @
     addLeadingZeros (nat d) 2"
proof -
  have "(s + int i * msPerDay) div msPerDay = s div msPerDay + int i"
    by (simp add: msPerDay_def)
  then have "civilFromDays (addDays s i div msPerDay) = (y, m, d)"
    using assms(1,2) by (simp add: addDays_def)
  then show ?thesis using assms(3) by (rule format_civil)
qed

text \<open>The month window of February 2024, with one log on the 29th at noon.\<close>

lemma february_first: "format_yyyy_MM_dd (addDays 1706745600000 0) = ''2024-02-01''"
proof -
  have z: "(1706745600000::int) div msPerDay + int 0 = 19754"
    by (simp add: msPerDay_def)
  have c: "civilFromDays 19754 = (2024, 2, 1)"
    by (simp add: civilFromDays_def YearFromDay_def DayFromYear_def InLeapYear_def
          monthAndDate_def Let_def)
  show ?thesis
    using format_addDays [OF z c] by (simp add: addLeadingZeros_def decimal.simps)
qed

lemma february_last: "format_yyyy_MM_dd (addDays 1706745600000 28) = ''2024-02-29''"
proof -
  have z: "(1706745600000::int) div msPerDay + int 28 = 19782"
    by (simp add: msPerDay_def)
  have c: "civilFromDays 19782 = (2024, 2, 29)"
    by (simp add: civilFromDays_def YearFromDay_def DayFromYear_def InLeapYear_def
          monthAndDate_def Let_def)
  show ?thesis
    using format_addDays [OF z c] by (simp add: addLeadingZeros_def decimal.simps)
qed

lemma february_numDays: "numDays 1706745600000 1709251199999 = 29"
  by (simp add: numDays_def differenceInCalendarDays_def startOfDay_def msPerDay_def)

theorem day_and_month_buckets_witness:
  "(\<exists>gs. groupLogsByHour
           [\<lparr> logId = ''a'', moodDate = 1709208000000, moodName = ''Happy'',
              moodEmoji = '':)'', moodColour = ''#FFD700'' \<rparr>] = Inr gs \<and>
         length gs = 24 \<and> map hour gs = [0..<24])
   \<and> 0 \<le> differenceInCalendarDays 1709251199999 1706745600000
   \<and> differenceInCalendarDays 1709251199999 1706745600000 \<le> 360
   \<and> (\<exists>gs. groupLogsByDate
           [\<lparr> logId = ''a'', moodDate = 1709208000000, moodName = ''Happy'',
              moodEmoji = '':)'', moodColour = ''#FFD700'' \<rparr>]
           1706745600000 1709251199999 = Inr gs \<and>
         length gs = 29 \<and> distinct (map date gs) \<and>
         date (hd gs) = ''2024-02-01'' \<and> date (last gs) = ''2024-02-29'')"
proof -
  have h1: "0 \<le> differenceInCalendarDays 1709251199999 1706745600000"
    by (simp add: differenceInCalendarDays_def startOfDay_def msPerDay_def)
  have h2: "differenceInCalendarDays 1709251199999 1706745600000 \<le> 360"
    by (simp add: differenceInCalendarDays_def startOfDay_def msPerDay_def)
  note inst = day_and_month_buckets
    [where ls = "[\<lparr> logId = ''a'', moodDate = 1709208000000, moodName = ''Happy'',
              moodEmoji = '':)'', moodColour = ''#FFD700'' \<rparr>]"
       and ls' = "[\<lparr> logId = ''a'', moodDate = 1709208000000, moodName = ''Happy'',
              moodEmoji = '':)'', moodColour = ''#FFD700'' \<rparr>]"
       and s = 1706745600000 and e = 1709251199999]
  from inst obtain gs where gs: "groupLogsByHour
           [\<lparr> logId = ''a'', moodDate = 1709208000000, moodName = ''Happy'',
              moodEmoji = '':)'', moodColour = ''#FFD700'' \<rparr>] = Inr gs"
       "length gs = 24" "map hour gs = [0..<24]"
    by blast
  from inst h1 h2 obtain ds where ds: "groupLogsByDate
           [\<lparr> logId = ''a'', moodDate = 1709208000000, moodName = ''Happy'',
              moodEmoji = '':)'', moodColour = ''#FFD700'' \<rparr>]
           1706745600000 1709251199999 = Inr ds"
       "int (length ds) = differenceInCalendarDays 1709251199999 1706745600000 + 1"
       "map date ds = map (\<lambda>i. format_yyyy_MM_dd (addDays 1706745600000 i))
                 [0..<numDays 1706745600000 1709251199999]"
       "distinct (map date ds)"
    by blast
  have len: "length ds = 29"
    using ds(2) by (simp add: differenceInCalendarDays_def startOfDay_def msPerDay_def)
  then have ne: "ds \<noteq> []" by auto
  have keys: "map date ds = map (\<lambda>i. format_yyyy_MM_dd (addDays 1706745600000 i)) [0..<29]"
    using ds(3) by (simp only: february_numDays)
  have "date (hd ds) = hd (map date ds)"
    using ne by (simp add: hd_map)
  also have "\<dots> = format_yyyy_MM_dd (addDays 1706745600000 0)"
    unfolding keys by (simp add: hd_map)
  finally have first: "date (hd ds) = ''2024-02-01''"
    by (simp only: february_first)
  have "date (last ds) = last (map date ds)"
    using ne by (simp add: last_map)
  also have "\<dots> = format_yyyy_MM_dd (addDays 1706745600000 28)"
    unfolding keys by (simp add: last_map)
  finally have final: "date (last ds) = ''2024-02-29''"
    by (simp only: february_last)
  show ?thesis
    by (intro conjI exI [of _ gs] exI [of _ ds] gs ds(1) ds(4) len first final h1 h2)
qed

section \<open>Counting the moods\<close>

lemma getProperty_cases:
  "getProperty obj k =
     (case map_of obj k of Some v \<Rightarrow> Own v
      | None \<Rightarrow> if k \<in> set objectPrototypeKeys then Inherited else Undefined)"
  by (simp add: getProperty_def)

lemma countStep_own:
  assumes "map_of mc (moodName l) = Some e"
  shows "countStep mc l = AList.update (moodName l) (e\<lparr> count := count e + 1 \<rparr>) mc"
  using assms by (simp add: countStep_def getProperty_def Let_def)

lemma countStep_inherited:
  assumes "map_of mc (moodName l) = None" "moodName l \<in> set objectPrototypeKeys"
  shows "countStep mc l = mc"
  using assms by (simp add: countStep_def getProperty_def Let_def)

lemma countStep_new:
  assumes "map_of mc (moodName l) = None" "moodName l \<notin> set objectPrototypeKeys"
  shows "countStep mc l = AList.update (moodName l) (firstEntry l 1) mc"
proof -
  have "map_of (AList.update (moodName l) (firstEntry l 0) mc) (moodName l) =
        Some (firstEntry l 0)"
    by (simp add: update_conv')
  then show ?thesis using assms
    by (simp add: countStep_def getProperty_def Let_def firstEntry_def)
qed

lemma countStep_other:
  assumes "n \<noteq> moodName l"
  shows "map_of (countStep mc l) n = map_of mc n"
proof (cases "map_of mc (moodName l)")
  case (Some e)
  then show ?thesis using assms by (simp add: countStep_own update_conv')
next
  case None
  then show ?thesis using assms
    by (cases "moodName l \<in> set objectPrototypeKeys")
       (simp_all add: countStep_inherited countStep_new update_conv')
qed

lemma fold_counts_own:
  "map_of mc n = Some e \<Longrightarrow>
   map_of (foldl countStep mc ls) n = Some (e\<lparr> count := count e + countOf ls n \<rparr>)"
proof (induction ls arbitrary: mc e)
  case Nil
  then show ?case by (simp add: countOf_def)
next
  case (Cons l ls)
  show ?case
  proof (cases "n = moodName l")
    case True
    then have "map_of (countStep mc l) n = Some (e\<lparr> count := count e + 1 \<rparr>)"
      using Cons.prems by (simp add: countStep_own update_conv')
    from Cons.IH [OF this] show ?thesis using True by (simp add: countOf_def)
  next
    case False
    then have "map_of (countStep mc l) n = Some e"
      using Cons.prems by (simp add: countStep_other)
    from Cons.IH [OF this] show ?thesis using False by (simp add: countOf_def)
  qed
qed

lemma fold_counts_new:
  "map_of mc n = None \<Longrightarrow> n \<notin> set objectPrototypeKeys \<Longrightarrow>
   map_of (foldl countStep mc ls) n =
     map_option (\<lambda>l. firstEntry l (countOf ls n)) (find (\<lambda>l. moodName l = n) ls)"
proof (induction ls arbitrary: mc)
  case Nil
  then show ?case by simp
next
  case (Cons l ls)
  show ?case
  proof (cases "n = moodName l")
    case True
    then have "map_of (countStep mc l) n = Some (firstEntry l 1)"
      using Cons.prems by (simp add: countStep_new update_conv')
    then have "map_of (foldl countStep (countStep mc l) ls) n =
        Some ((firstEntry l 1)\<lparr> count := count (firstEntry l 1) + countOf ls n \<rparr>)"
      by (rule fold_counts_own)
    then show ?thesis using True by (simp add: countOf_def firstEntry_def)
  next
    case False
    then have "map_of (countStep mc l) n = None"
      using Cons.prems by (simp add: countStep_other)
    then have "map_of (foldl countStep (countStep mc l) ls) n =
       map_option (\<lambda>l. firstEntry l (countOf ls n)) (find (\<lambda>l. moodName l = n) ls)"
      using Cons.prems(2) by (rule Cons.IH)
    moreover have "countOf (l # ls) n = countOf ls n"
      using False by (simp add: countOf_def)
    ultimately show ?thesis using False by simp
  qed
qed

lemma fold_counts_inherited:
  "map_of mc n = None \<Longrightarrow> n \<in> set objectPrototypeKeys \<Longrightarrow>
   map_of (foldl countStep mc ls) n = None"
proof (induction ls arbitrary: mc)
  case Nil
  then show ?case by simp
next
  case (Cons l ls)
  have "map_of (countStep mc l) n = None"
  proof (cases "n = moodName l")
    case True
    then show ?thesis using Cons.prems by (simp add: countStep_inherited)
  next
    case False
    then show ?thesis using Cons.prems by (simp add: countStep_other)
  qed
  from Cons.IH [OF this Cons.prems(2)] show ?case by simp
qed

lemma map_of_percentages:
  "map_of (map (\<lambda>(mood, entry). (mood, f entry)) mc) n = map_option f (map_of mc n)"
  by (induction mc) auto

lemma summary_entry:
  assumes "n \<notin> set objectPrototypeKeys"
    and "find (\<lambda>l. moodName l = n) ls = Some l0"
  shows "map_of (moodCounts (getMoodSummary p s e ls)) n =
     Some \<lparr> count = countOf ls n, emoji = moodEmoji l0, color = moodColour l0,
            percentage = percentageOf (countOf ls n) (length ls) \<rparr>"
proof -
  have "map_of (foldl countStep [] ls) n = Some (firstEntry l0 (countOf ls n))"
    using fold_counts_new [of "[]" n ls] assms by simp
  then show ?thesis
    by (simp add: getMoodSummary_def Let_def map_of_percentages firstEntry_def)
qed

lemma summary_inherited:
  assumes "n \<in> set objectPrototypeKeys"
  shows "map_of (moodCounts (getMoodSummary p s e ls)) n = None"
  using fold_counts_inherited [of "[]" n ls] assms
  by (simp add: getMoodSummary_def Let_def map_of_percentages)

text \<open>
  The summary of a list of logs: the total is the length of the list, and every mood name
  of the list that is not the name of an inherited property has an entry with the number
  of its logs, the emoji and colour of its first log, and the percentage computed from
  that number and the total. The summary of the empty list has no entries, and its
  categories are those of the period.
\<close>

lemma summary_of_named_moods:
  "totalLogs (getMoodSummary p s e ls) = length ls
   \<and> (n \<in> moodName ` set ls \<and> n \<notin> set objectPrototypeKeys \<longrightarrow>
        (\<exists>entry. map_of (moodCounts (getMoodSummary p s e ls)) n = Some entry \<and>
           count entry = length (filter (\<lambda>l. moodName l = n) ls) \<and>
           percentage entry =
             Math_round (doubleMul (doubleDiv (of_nat (count entry)) (of_nat (length ls))) 100)))
   \<and> getMoodSummary p s e [] =
        \<lparr> period = p, timeRangeStart = s, timeRangeEnd = e, totalLogs = 0, moodCounts = [],
          categories = getCategoriesForPeriod p s e \<rparr>"
proof (intro conjI impI)
  show "totalLogs (getMoodSummary p s e ls) = length ls"
    by (simp add: getMoodSummary_def Let_def)
next
  assume a: "n \<in> moodName ` set ls \<and> n \<notin> set objectPrototypeKeys"
  then have "find (\<lambda>l. moodName l = n) ls \<noteq> None"
    by (auto simp: find_None_iff)
  then obtain l0 where f: "find (\<lambda>l. moodName l = n) ls = Some l0"
    by auto
  from a have "0 < length ls" by auto
  then have "percentageOf (countOf ls n) (length ls) =
      Math_round (doubleMul (doubleDiv (of_nat (countOf ls n)) (of_nat (length ls))) 100)"
    by (simp add: percentageOf_def)
  then show "\<exists>entry. map_of (moodCounts (getMoodSummary p s e ls)) n = Some entry \<and>
           count entry = length (filter (\<lambda>l. moodName l = n) ls) \<and>
           percentage entry =
             Math_round (doubleMul (doubleDiv (of_nat (count entry)) (of_nat (length ls))) 100)"
    using summary_entry [of n ls l0 p s e] a f by (simp add: countOf_def)
next
  show "getMoodSummary p s e [] =
        \<lparr> period = p, timeRangeStart = s, timeRangeEnd = e, totalLogs = 0, moodCounts = [],
          categories = getCategoriesForPeriod p s e \<rparr>"
    by (simp add: getMoodSummary_def)
qed

text \<open>
  C9. The claim holds for ordinary mood names (\<open>summary_of_named_moods\<close>) and fails
  for a mood whose name is that of an inherited property: for a single log of a mood named
  \<open>constructor\<close> the summary has total 1 and no entry at all, where the claim has an
  entry with count 1.
\<close>

theorem summary_misses_inherited_name:
  "totalLogs (getMoodSummary Day 1709164800000 1709251199999
      [\<lparr> logId = ''a'', moodDate = 1709208000000, moodName = ''constructor'',
         moodEmoji = '':)'', moodColour = ''#FFD700'' \<rparr>]) = 1
   \<and> moodCounts (getMoodSummary Day 1709164800000 1709251199999
      [\<lparr> logId = ''a'', moodDate = 1709208000000, moodName = ''constructor'',
         moodEmoji = '':)'', moodColour = ''#FFD700'' \<rparr>]) = []"
  by (simp add: getMoodSummary_def countStep_def getProperty_def objectPrototypeKeys_def)


end
